theory Spec2Isabelle
  imports Main
begin

section \<open>Strings of the host language\<close>

text \<open>
  The component is written in TypeScript. Its strings are sequences of UTF-16 code
  units; this development models the strings whose code units lie below 256 (Basic
  Latin and Latin-1), one \<^typ>\<open>char\<close> per code unit. The three library functions of
  \<^verbatim>\<open>String.prototype\<close> that the component calls are written out for that range.
\<close>

text \<open>\<^verbatim>\<open>toLowerCase\<close>: the letters A-Z and the Latin-1 capitals U+00C0-U+00DE
  (U+00D7, the multiplication sign, apart) move up by 32; every other unit stays.\<close>

definition lower_char :: "char \<Rightarrow> char" where
  "lower_char c =
     (let n = (of_char c :: nat)
      in if (65 \<le> n \<and> n \<le> 90) \<or> (192 \<le> n \<and> n \<le> 222 \<and> n \<noteq> 215)
         then char_of (n + 32) else c)"

definition toLowerCase :: "string \<Rightarrow> string" where
  "toLowerCase s = map lower_char s"

text \<open>\<^verbatim>\<open>trim\<close> strips white space and line terminators from both ends. Below 256
  these are TAB, LF, VT, FF, CR, SPACE and NO-BREAK SPACE.\<close>

definition is_white :: "char \<Rightarrow> bool" where
  "is_white c = ((of_char c :: nat) \<in> {9, 10, 11, 12, 13, 32, 160})"

definition trim :: "string \<Rightarrow> string" where
  "trim s = rev (dropWhile is_white (rev (dropWhile is_white s)))"

text \<open>\<^verbatim>\<open>s.includes(q)\<close>: does \<open>q\<close> occur in \<open>s\<close> at some position? The scan
  tries every start position from the left, the end of the string included.\<close>

fun startsWith :: "string \<Rightarrow> string \<Rightarrow> bool" where
  "startsWith s [] = True"
| "startsWith [] (q # qs) = False"
| "startsWith (c # cs) (q # qs) = (c = q \<and> startsWith cs qs)"

fun str_includes :: "string \<Rightarrow> string \<Rightarrow> bool" where
  "str_includes [] q = startsWith [] q"
| "str_includes (c # cs) q = (startsWith (c # cs) q \<or> str_includes cs q)"

text \<open>\<^verbatim>\<open>Date.now().toString()\<close>: the decimal digits of a natural number.\<close>

fun toString :: "nat \<Rightarrow> string" where
  "toString n =
     (if n < 10 then [''0123456789'' ! n]
      else toString (n div 10) @ [''0123456789'' ! (n mod 10)])"

declare toString.simps [simp del]


section \<open>The note and the component state\<close>

text \<open>\<^verbatim>\<open>interface Note\<close>. Both time stamps are strings, as in the source.\<close>

record Note =
  id' :: string
  title :: string
  content :: string
  tags :: "string list"
  createdAt :: string
  updatedAt :: string

text \<open>The nine \<^verbatim>\<open>useState\<close> cells of \<^verbatim>\<open>Home\<close>. \<^verbatim>\<open>string | null\<close> and
  \<^verbatim>\<open>Note | null\<close> are options.\<close>

record state =
  "notes" :: "Note list"
  searchQuery :: string
  selectedTag :: "string option"
  isEditing :: bool
  currentNote :: "Note option"
  title :: string
  content :: string
  tagInput :: string
  tags :: "string list"

definition initial :: state where
  "initial = \<lparr> notes = [], searchQuery = [], selectedTag = None, isEditing = False,
     currentNote = None, state.title = [], state.content = [], tagInput = [],
     state.tags = [] \<rparr>"


section \<open>The editing session\<close>

definition createNote :: "state \<Rightarrow> state" where
  "createNote st = st\<lparr> currentNote := None, state.title := [], state.content := [],
     state.tags := [], tagInput := [], isEditing := True \<rparr>"

definition editNote :: "Note \<Rightarrow> state \<Rightarrow> state" where
  "editNote n st = st\<lparr> currentNote := Some n, state.title := Note.title n,
     state.content := Note.content n, state.tags := Note.tags n, tagInput := [],
     isEditing := True \<rparr>"

text \<open>The two \<^verbatim>\<open>onChange\<close> handlers of the editor and the one of the tag input.\<close>

definition setTitle :: "string \<Rightarrow> state \<Rightarrow> state" where
  "setTitle s st = st\<lparr> state.title := s \<rparr>"

definition setContent :: "string \<Rightarrow> state \<Rightarrow> state" where
  "setContent s st = st\<lparr> state.content := s \<rparr>"

definition setTagInput :: "string \<Rightarrow> state \<Rightarrow> state" where
  "setTagInput s st = st\<lparr> tagInput := s \<rparr>"

text \<open>
  \<^verbatim>\<open>saveNote\<close>. The two clock readings are arguments: \<open>ms\<close> is \<^verbatim>\<open>Date.now()\<close>,
  \<open>now\<close> is \<^verbatim>\<open>new Date().toISOString()\<close>. The guard in the first line returns
  before any cell is written. An empty string is the only falsy string, so
  \<^verbatim>\<open>!title.trim()\<close> is \<open>trim title = []\<close>.
\<close>

definition saveNote :: "nat \<Rightarrow> string \<Rightarrow> state \<Rightarrow> state" where
  "saveNote ms now st =
     (if trim (state.title st) = [] \<and> trim (state.content st) = [] then st
      else
        (case currentNote st of
           Some cur \<Rightarrow>
             st\<lparr> notes :=
                    map (\<lambda>n. if id' n = id' cur
                              then n\<lparr> Note.title := state.title st,
                                      Note.content := state.content st,
                                      Note.tags := state.tags st,
                                      updatedAt := now \<rparr>
                              else n) (notes st),
                 isEditing := False, currentNote := None \<rparr>
         | None \<Rightarrow>
             st\<lparr> notes :=
                    \<lparr> id' = toString ms, Note.title = state.title st,
                      Note.content = state.content st, Note.tags = state.tags st,
                      createdAt = now, updatedAt = now \<rparr> # notes st,
                 isEditing := False, currentNote := None \<rparr>))"

text \<open>\<^verbatim>\<open>deleteNote\<close>; \<open>ok\<close> is the answer of the \<^verbatim>\<open>confirm\<close> dialogue.\<close>

definition deleteNote :: "bool \<Rightarrow> string \<Rightarrow> state \<Rightarrow> state" where
  "deleteNote ok i st =
     (if ok then st\<lparr> notes := filter (\<lambda>n. id' n \<noteq> i) (notes st) \<rparr> else st)"

definition addTag :: "state \<Rightarrow> state" where
  "addTag st =
     (let tag = toLowerCase (trim (tagInput st))
      in if tag \<noteq> [] \<and> tag \<notin> set (state.tags st)
         then st\<lparr> state.tags := state.tags st @ [tag], tagInput := [] \<rparr>
         else st)"

definition removeTag :: "string \<Rightarrow> state \<Rightarrow> state" where
  "removeTag tag st = st\<lparr> state.tags := filter (\<lambda>t. t \<noteq> tag) (state.tags st) \<rparr>"

text \<open>The Back button of the editor.\<close>

definition goBack :: "state \<Rightarrow> state" where
  "goBack st = st\<lparr> isEditing := False \<rparr>"


text \<open>What the user can do to the tags of a draft: type into the tag input, press
  the add button (or Enter), press the remove button of a tag.\<close>

datatype draft_event = TypeTag string | AddTag | RemoveTag string

fun apply_event :: "draft_event \<Rightarrow> state \<Rightarrow> state" where
  "apply_event (TypeTag s) st = setTagInput s st"
| "apply_event AddTag st = addTag st"
| "apply_event (RemoveTag t) st = removeTag t st"


section \<open>The visible list\<close>

text \<open>The two predicates of the \<^verbatim>\<open>filter\<close> callback. \<^verbatim>\<open>tags.some\<close> is
  \<^const>\<open>list_ex\<close>, \<^verbatim>\<open>tags.includes\<close> on an array is membership.\<close>

definition matchesSearch :: "string \<Rightarrow> Note \<Rightarrow> bool" where
  "matchesSearch q n =
     (q = [] \<or>
      str_includes (toLowerCase (Note.title n)) (toLowerCase q) \<or>
      str_includes (toLowerCase (Note.content n)) (toLowerCase q) \<or>
      list_ex (\<lambda>tag. str_includes (toLowerCase tag) (toLowerCase q)) (Note.tags n))"

definition matchesTag :: "string option \<Rightarrow> Note \<Rightarrow> bool" where
  "matchesTag sel n = (case sel of None \<Rightarrow> True | Some t \<Rightarrow> t \<in> set (Note.tags n))"

text \<open>
  The comparator of the \<^verbatim>\<open>sort\<close> call. \<open>getTime\<close> stands for
  \<^verbatim>\<open>s => new Date(s).getTime()\<close>, a function of the platform: a number of
  milliseconds, or \<open>None\<close> for \<^verbatim>\<open>NaN\<close> when the string is no date. A difference
  with a \<^verbatim>\<open>NaN\<close> operand is \<^verbatim>\<open>NaN\<close>.
\<close>

definition compareUpdatedAt :: "(string \<Rightarrow> int option) \<Rightarrow> Note \<Rightarrow> Note \<Rightarrow> int option" where
  "compareUpdatedAt getTime a b =
     (case (getTime (updatedAt b), getTime (updatedAt a)) of
        (Some tb, Some ta) \<Rightarrow> Some (tb - ta)
      | _ \<Rightarrow> None)"

text \<open>
  \<^verbatim>\<open>Array.prototype.sort\<close> with a comparator. The language fixes the result when the
  comparator is consistent (the stable sorted order) and leaves it to the engine
  otherwise. The model follows V8, the engine of Chrome and Node, on arrays of fewer
  than 64 elements: it takes the longest run at the start of the array, reversed when
  it is strictly descending, and puts every further element in its place by binary
  search. On longer arrays V8 merges several such runs, which gives the same list as
  the model whenever the comparator is consistent.
\<close>

text \<open>What the sort reads of a comparator result: \<^verbatim>\<open>NaN\<close> counts as 0.\<close>

definition order :: "('a \<Rightarrow> 'a \<Rightarrow> int option) \<Rightarrow> 'a \<Rightarrow> 'a \<Rightarrow> int" where
  "order cmp x y = (case cmp x y of None \<Rightarrow> 0 | Some d \<Rightarrow> d)"

text \<open>The run goes on while each element compares with the one before it as the
  second element does with the first: below 0 in a descending run, not below 0 in the
  other kind. The result is the rest of the run and what follows it.\<close>

fun extend_run ::
  "('a \<Rightarrow> 'a \<Rightarrow> int option) \<Rightarrow> bool \<Rightarrow> 'a \<Rightarrow> 'a list \<Rightarrow> 'a list \<times> 'a list" where
  "extend_run cmp desc prev [] = ([], [])"
| "extend_run cmp desc prev (x # xs) =
     (if desc = (order cmp x prev < 0)
      then (case extend_run cmp desc x xs of (seg, rest) \<Rightarrow> (x # seg, rest))
      else ([], x # xs))"

text \<open>Binary insertion of \<open>p\<close>: compare with the middle element; below 0 sends the
  search to the left of it, anything else to the right of it. The index is in range,
  the list being non-empty.\<close>

function binary_insert :: "('a \<Rightarrow> 'a \<Rightarrow> int option) \<Rightarrow> 'a \<Rightarrow> 'a list \<Rightarrow> 'a list" where
  "binary_insert cmp p [] = [p]"
| "binary_insert cmp p (x # xs) =
     (let mid = length (x # xs) div 2
      in if order cmp p ((x # xs) ! mid) < 0
         then binary_insert cmp p (take mid (x # xs)) @ drop mid (x # xs)
         else take (Suc mid) (x # xs) @ binary_insert cmp p (drop (Suc mid) (x # xs)))"
  by pat_completeness auto
termination
  by (relation "measure (\<lambda>(cmp, p, xs). length xs)") auto

text \<open>The elements after the run, from left to right.\<close>

fun insert_all :: "('a \<Rightarrow> 'a \<Rightarrow> int option) \<Rightarrow> 'a list \<Rightarrow> 'a list \<Rightarrow> 'a list" where
  "insert_all cmp acc [] = acc"
| "insert_all cmp acc (p # ps) = insert_all cmp (binary_insert cmp p acc) ps"

text \<open>An array of fewer than two elements is returned as it is.\<close>

fun array_sort :: "('a \<Rightarrow> 'a \<Rightarrow> int option) \<Rightarrow> 'a list \<Rightarrow> 'a list" where
  "array_sort cmp (x0 # x1 # xs) =
     (let desc = (order cmp x1 x0 < 0)
      in case extend_run cmp desc x0 (x1 # xs) of
           (seg, rest) \<Rightarrow>
             insert_all cmp (if desc then rev (x0 # seg) else x0 # seg) rest)"
| "array_sort cmp xs = xs"

definition filteredNotes :: "(string \<Rightarrow> int option) \<Rightarrow> state \<Rightarrow> Note list" where
  "filteredNotes getTime st =
     array_sort (compareUpdatedAt getTime)
       (filter (\<lambda>n. matchesSearch (searchQuery st) n \<and> matchesTag (selectedTag st) n)
          (notes st))"


section \<open>JSON text\<close>

text \<open>
  The collection is stored as the text \<^verbatim>\<open>JSON.stringify(notes)\<close> and read back
  with \<^verbatim>\<open>JSON.parse\<close>. Both are functions of the platform, modelled here after
  the JSON grammar: a lexer from text to tokens, a pushdown recogniser from tokens to a
  value, and the printer going the other way. A JSON string is a list of code units
  (\<^typ>\<open>nat\<close>), since an escape \<^verbatim>\<open>\uXXXX\<close> may name a unit that no
  \<^typ>\<open>char\<close> of the text holds. A number keeps its lexeme.
\<close>

datatype json =
    JNull
  | JBool bool
  | JNumber string
  | JString "nat list"
  | JArray "json list"
  | JObject "(nat list \<times> json) list"

datatype token =
    TLBrace | TRBrace | TLBrack | TRBrack | TColon | TComma
  | TStr "nat list" | TNum string | TTrue | TFalse | TNull

definition units :: "string \<Rightarrow> nat list" where
  "units s = map of_char s"

subsection \<open>Lexer\<close>

definition hexval :: "char \<Rightarrow> nat option" where
  "hexval c =
     (let n = (of_char c :: nat)
      in if 48 \<le> n \<and> n \<le> 57 then Some (n - 48)
         else if 65 \<le> n \<and> n \<le> 70 then Some (n - 55)
         else if 97 \<le> n \<and> n \<le> 102 then Some (n - 87)
         else None)"

definition hex4 :: "char \<Rightarrow> char \<Rightarrow> char \<Rightarrow> char \<Rightarrow> nat option" where
  "hex4 a b c d =
     (case (hexval a, hexval b, hexval c, hexval d) of
        (Some h3, Some h2, Some h1, Some h0) \<Rightarrow> Some (((h3 * 16 + h2) * 16 + h1) * 16 + h0)
      | _ \<Rightarrow> None)"

text \<open>The character after a backslash, \<^verbatim>\<open>u\<close> apart.\<close>

definition unescape :: "char \<Rightarrow> nat option" where
  "unescape e =
     (let n = (of_char e :: nat)
      in if n = 34 then Some 34
         else if n = 92 then Some 92
         else if n = 47 then Some 47
         else if n = 98 then Some 8
         else if n = 102 then Some 12
         else if n = 110 then Some 10
         else if n = 114 then Some 13
         else if n = 116 then Some 9
         else None)"

definition cons_opt :: "'a \<Rightarrow> ('a list \<times> 'b) option \<Rightarrow> ('a list \<times> 'b) option" where
  "cons_opt x r = (case r of None \<Rightarrow> None | Some (xs, rest) \<Rightarrow> Some (x # xs, rest))"

text \<open>The body of a string literal, after the opening quote: the units it denotes
  and the text after the closing quote. A control character may not occur raw.\<close>

fun lex_string :: "string \<Rightarrow> (nat list \<times> string) option" where
  "lex_string [] = None"
| "lex_string (c # cs) =
     (let n = (of_char c :: nat)
      in if n = 34 then Some ([], cs)
         else if n = 92 then
           (case cs of
              [] \<Rightarrow> None
            | e # cs1 \<Rightarrow>
                if of_char e = (117 :: nat) then
                  (case cs1 of
                     h3 # h2 # h1 # h0 # cs2 \<Rightarrow>
                       (case hex4 h3 h2 h1 h0 of
                          None \<Rightarrow> None
                        | Some u \<Rightarrow> cons_opt u (lex_string cs2))
                   | _ \<Rightarrow> None)
                else
                  (case unescape e of
                     None \<Rightarrow> None
                   | Some u \<Rightarrow> cons_opt u (lex_string cs1)))
         else if n < 32 then None
         else cons_opt n (lex_string cs))"

definition is_digit :: "char \<Rightarrow> bool" where
  "is_digit c = (48 \<le> (of_char c :: nat) \<and> (of_char c :: nat) \<le> 57)"

text \<open>The optional parts of a number. A fraction, once begun by the point, needs a
  digit; so does an exponent, after its letter and an optional sign.\<close>

definition lex_fraction :: "string \<Rightarrow> (string \<times> string) option" where
  "lex_fraction cs =
     (case cs of
        [] \<Rightarrow> Some ([], [])
      | c # r \<Rightarrow>
          if c = CHR ''.'' then
            (if takeWhile is_digit r = [] then None
             else Some (c # takeWhile is_digit r, dropWhile is_digit r))
          else Some ([], cs))"

definition lex_sign :: "string \<Rightarrow> string \<times> string" where
  "lex_sign cs =
     (case cs of
        [] \<Rightarrow> ([], [])
      | c # r \<Rightarrow> if c = CHR ''+'' \<or> c = CHR ''-'' then ([c], r) else ([], cs))"

definition lex_exponent :: "string \<Rightarrow> (string \<times> string) option" where
  "lex_exponent cs =
     (case cs of
        [] \<Rightarrow> Some ([], [])
      | c # r \<Rightarrow>
          if c = CHR ''e'' \<or> c = CHR ''E'' then
            (case lex_sign r of
               (sg, r1) \<Rightarrow>
                 if takeWhile is_digit r1 = [] then None
                 else Some (c # sg @ takeWhile is_digit r1, dropWhile is_digit r1))
          else Some ([], cs))"

text \<open>A number: an optional minus, the integer part (no leading zero before another
  digit), an optional fraction, an optional exponent. The lexeme and the rest.\<close>

definition lex_number :: "string \<Rightarrow> (string \<times> string) option" where
  "lex_number cs =
     (case (case cs of
              [] \<Rightarrow> ([], [])
            | c # r \<Rightarrow> if c = CHR ''-'' then ([c], r) else ([], cs)) of
        (sg, r0) \<Rightarrow>
          if takeWhile is_digit r0 = [] then None
          else if hd r0 = CHR ''0'' \<and> 1 < length (takeWhile is_digit r0) then None
          else
            (case lex_fraction (dropWhile is_digit r0) of
               None \<Rightarrow> None
             | Some (fr, r1) \<Rightarrow>
                 (case lex_exponent r1 of
                    None \<Rightarrow> None
                  | Some (ex, r2) \<Rightarrow> Some (sg @ takeWhile is_digit r0 @ fr @ ex, r2))))"

definition is_json_white :: "char \<Rightarrow> bool" where
  "is_json_white c = ((of_char c :: nat) \<in> {9, 10, 13, 32})"

definition cons_tok :: "token \<Rightarrow> token list option \<Rightarrow> token list option" where
  "cons_tok t r = (case r of None \<Rightarrow> None | Some ts \<Rightarrow> Some (t # ts))"

definition punctuation :: "char \<Rightarrow> token option" where
  "punctuation c =
     (if c = CHR ''{'' then Some TLBrace
      else if c = CHR ''}'' then Some TRBrace
      else if c = CHR ''['' then Some TLBrack
      else if c = CHR '']'' then Some TRBrack
      else if c = CHR '':'' then Some TColon
      else if c = CHR '','' then Some TComma
      else None)"

definition literal :: "string \<Rightarrow> (token \<times> string) option" where
  "literal s =
     (if startsWith s ''true'' then Some (TTrue, drop 4 s)
      else if startsWith s ''false'' then Some (TFalse, drop 5 s)
      else if startsWith s ''null'' then Some (TNull, drop 4 s)
      else None)"

definition lex_token :: "string \<Rightarrow> (token \<times> string) option" where
  "lex_token s =
     (case s of
        [] \<Rightarrow> None
      | c # cs \<Rightarrow>
          (case punctuation c of
             Some t \<Rightarrow> Some (t, cs)
           | None \<Rightarrow>
               if of_char c = (34 :: nat) then
                 (case lex_string cs of
                    None \<Rightarrow> None
                  | Some (us, r) \<Rightarrow> Some (TStr us, r))
               else if c = CHR ''-'' \<or> is_digit c then
                 (case lex_number s of
                    None \<Rightarrow> None
                  | Some (l, r) \<Rightarrow> Some (TNum l, r))
               else literal s))"

text \<open>The lexer consumes at least one character for every token, which is why it
  terminates.\<close>

lemma cons_opt_Some: "cons_opt x r = Some (ys, rest) \<Longrightarrow> \<exists>xs. r = Some (xs, rest) \<and> ys = x # xs"
  by (auto simp: cons_opt_def split: option.splits)

lemma lex_string_length: "lex_string cs = Some (us, r) \<Longrightarrow> length r < length cs"
proof (induction cs arbitrary: us r rule: lex_string.induct)
  case 1
  then show ?case by simp
next
  case (2 c cs)
  then show ?case
    by (fastforce simp: Let_def split: if_splits list.splits option.splits dest!: cons_opt_Some)
qed

lemma lex_fraction_length: "lex_fraction cs = Some (l, r) \<Longrightarrow> length r \<le> length cs"
  by (auto simp: lex_fraction_def length_dropWhile_le le_SucI split: list.splits if_splits)

lemma lex_sign_length: "lex_sign cs = (l, r) \<Longrightarrow> length r \<le> length cs"
  by (auto simp: lex_sign_def split: list.splits if_splits)

lemma lex_exponent_length:
  assumes "lex_exponent cs = Some (l, r)"
  shows "length r \<le> length cs"
proof (cases cs)
  case Nil
  with assms show ?thesis by (simp add: lex_exponent_def)
next
  case (Cons c r0)
  obtain sg r1 where s: "lex_sign r0 = (sg, r1)" by (cases "lex_sign r0")
  have "length (dropWhile is_digit r1) \<le> length r1" by (rule length_dropWhile_le)
  moreover have "length r1 \<le> length r0" using s by (rule lex_sign_length)
  ultimately show ?thesis using assms Cons s
    by (auto simp: lex_exponent_def split: if_splits)
qed

lemma dropWhile_shorter: "takeWhile P xs \<noteq> [] \<Longrightarrow> length (dropWhile P xs) < length xs"
  by (cases xs) (auto simp: length_dropWhile_le less_Suc_eq_le split: if_splits)

lemma lex_number_length: "lex_number cs = Some (l, r) \<Longrightarrow> length r < length cs"
proof -
  assume a: "lex_number cs = Some (l, r)"
  define p where "p = (case cs of [] \<Rightarrow> ([], []) | c # r \<Rightarrow> if c = CHR ''-'' then ([c], r) else ([], cs))"
  obtain sg r0 where p: "p = (sg, r0)" by (cases p)
  have r0: "length r0 \<le> length cs" using p by (auto simp: p_def split: list.splits if_splits)
  from a p have ne: "takeWhile is_digit r0 \<noteq> []"
    by (auto simp: lex_number_def p_def[symmetric] split: if_splits)
  from a p ne obtain fr r1 ex where
    f: "lex_fraction (dropWhile is_digit r0) = Some (fr, r1)" and e: "lex_exponent r1 = Some (ex, r)"
    by (auto simp: lex_number_def p_def[symmetric] split: if_splits option.splits)
  have "length r \<le> length r1" using e by (rule lex_exponent_length)
  moreover have "length r1 \<le> length (dropWhile is_digit r0)" using f by (rule lex_fraction_length)
  moreover have "length (dropWhile is_digit r0) < length r0" using ne by (rule dropWhile_shorter)
  ultimately show ?thesis using r0 by linarith
qed

lemma lex_token_length: "lex_token s = Some (t, r) \<Longrightarrow> length r < length s"
  by (auto simp: lex_token_def literal_def split: list.splits option.splits if_splits
      dest: lex_string_length lex_number_length)

function lex :: "string \<Rightarrow> token list option" where
  "lex [] = Some []"
| "lex (c # cs) =
     (if is_json_white c then lex cs
      else
        (case lex_token (c # cs) of
           None \<Rightarrow> None
         | Some (t, r) \<Rightarrow> cons_tok t (lex r)))"
  by pat_completeness auto
termination
  by (relation "measure length") (auto dest: lex_token_length)

subsection \<open>Parser\<close>

text \<open>
  A pushdown recogniser, one token a step. A frame is an array or object that is open,
  with what it holds so far (newest first) and, for an object, the key whose value is
  being read. The mode says what may come next.
\<close>

datatype frame =
    InArray "json list"
  | InObject "(nat list \<times> json) list" "nat list"

datatype mode =
    Value
  | ArrayStart
  | ObjectStart
  | Key "(nat list \<times> json) list"
  | Colon "(nat list \<times> json) list" "nat list"
  | Done json

fun begin_value :: "token \<Rightarrow> mode option" where
  "begin_value (TStr us) = Some (Done (JString us))"
| "begin_value (TNum l) = Some (Done (JNumber l))"
| "begin_value TTrue = Some (Done (JBool True))"
| "begin_value TFalse = Some (Done (JBool False))"
| "begin_value TNull = Some (Done JNull)"
| "begin_value TLBrack = Some ArrayStart"
| "begin_value TLBrace = Some ObjectStart"
| "begin_value _ = None"

definition step :: "mode \<Rightarrow> frame list \<Rightarrow> token \<Rightarrow> (mode \<times> frame list) option" where
  "step m fs t =
     (case m of
        Value \<Rightarrow> map_option (\<lambda>m'. (m', fs)) (begin_value t)
      | ArrayStart \<Rightarrow>
          if t = TRBrack then Some (Done (JArray []), fs)
          else map_option (\<lambda>m'. (m', InArray [] # fs)) (begin_value t)
      | ObjectStart \<Rightarrow>
          (case t of
             TRBrace \<Rightarrow> Some (Done (JObject []), fs)
           | TStr k \<Rightarrow> Some (Colon [] k, fs)
           | _ \<Rightarrow> None)
      | Key acc \<Rightarrow> (case t of TStr k \<Rightarrow> Some (Colon acc k, fs) | _ \<Rightarrow> None)
      | Colon acc k \<Rightarrow> if t = TColon then Some (Value, InObject acc k # fs) else None
      | Done v \<Rightarrow>
          (case fs of
             [] \<Rightarrow> None
           | InArray acc # fs' \<Rightarrow>
               (case t of
                  TComma \<Rightarrow> Some (Value, InArray (v # acc) # fs')
                | TRBrack \<Rightarrow> Some (Done (JArray (rev (v # acc))), fs')
                | _ \<Rightarrow> None)
           | InObject acc k # fs' \<Rightarrow>
               (case t of
                  TComma \<Rightarrow> Some (Key ((k, v) # acc), fs')
                | TRBrace \<Rightarrow> Some (Done (JObject (rev ((k, v) # acc))), fs')
                | _ \<Rightarrow> None)))"

fun run :: "mode \<Rightarrow> frame list \<Rightarrow> token list \<Rightarrow> json option" where
  "run m fs [] = (case m of Done v \<Rightarrow> (if fs = [] then Some v else None) | _ \<Rightarrow> None)"
| "run m fs (t # ts) =
     (case step m fs t of None \<Rightarrow> None | Some (m', fs') \<Rightarrow> run m' fs' ts)"

text \<open>\<^verbatim>\<open>JSON.parse\<close>: \<open>None\<close> is the \<^verbatim>\<open>SyntaxError\<close> it throws.\<close>

definition JSON_parse :: "string \<Rightarrow> json option" where
  "JSON_parse s = (case lex s of None \<Rightarrow> None | Some ts \<Rightarrow> run Value [] ts)"


subsection \<open>Printer\<close>

text \<open>
  \<^verbatim>\<open>JSON.stringify\<close> escapes the quote, the backslash and the control characters
  and writes every other unit as it is; it puts no white space between tokens.
\<close>

definition hexdigit :: "nat \<Rightarrow> char" where
  "hexdigit k = ''0123456789abcdef'' ! k"

definition quote_unit :: "nat \<Rightarrow> string" where
  "quote_unit n =
     (if n = 34 then [CHR 0x5C, CHR 0x22]
      else if n = 92 then [CHR 0x5C, CHR 0x5C]
      else if n = 8 then [CHR 0x5C, CHR ''b'']
      else if n = 12 then [CHR 0x5C, CHR ''f'']
      else if n = 10 then [CHR 0x5C, CHR ''n'']
      else if n = 13 then [CHR 0x5C, CHR ''r'']
      else if n = 9 then [CHR 0x5C, CHR ''t'']
      else if n < 32 then
        [CHR 0x5C, CHR ''u'', CHR ''0'', CHR ''0'', hexdigit (n div 16), hexdigit (n mod 16)]
      else [char_of n])"

definition quote :: "nat list \<Rightarrow> string" where
  "quote us = CHR 0x22 # concat (map quote_unit us) @ [CHR 0x22]"

fun print_token :: "token \<Rightarrow> string" where
  "print_token TLBrace = ''{''"
| "print_token TRBrace = ''}''"
| "print_token TLBrack = ''[''"
| "print_token TRBrack = '']''"
| "print_token TColon = '':''"
| "print_token TComma = '',''"
| "print_token (TStr us) = quote us"
| "print_token (TNum l) = l"
| "print_token TTrue = ''true''"
| "print_token TFalse = ''false''"
| "print_token TNull = ''null''"

fun separate :: "'a \<Rightarrow> 'a list list \<Rightarrow> 'a list" where
  "separate s [] = []"
| "separate s [x] = x"
| "separate s (x # y # zs) = x @ s # separate s (y # zs)"

fun tokens_of :: "json \<Rightarrow> token list" where
  "tokens_of JNull = [TNull]"
| "tokens_of (JBool b) = [if b then TTrue else TFalse]"
| "tokens_of (JNumber l) = [TNum l]"
| "tokens_of (JString us) = [TStr us]"
| "tokens_of (JArray vs) = TLBrack # separate TComma (map tokens_of vs) @ [TRBrack]"
| "tokens_of (JObject ms) =
     TLBrace # separate TComma (map (\<lambda>m. TStr (fst m) # TColon # tokens_of (snd m)) ms)
       @ [TRBrace]"

definition print_json :: "json \<Rightarrow> string" where
  "print_json v = concat (map print_token (tokens_of v))"


text \<open>The tokens that the printer writes so that the lexer reads them back: every
  token but a number, with string units that a \<^typ>\<open>char\<close> holds.\<close>

fun printable :: "token \<Rightarrow> bool" where
  "printable (TStr us) = list_all (\<lambda>u. u < 256) us"
| "printable (TNum l) = False"
| "printable t = True"

abbreviation member_tokens :: "nat list \<times> json \<Rightarrow> token list" where
  "member_tokens m \<equiv> TStr (fst m) # TColon # tokens_of (snd m)"


section \<open>Persistence\<close>

text \<open>
  The value that \<^verbatim>\<open>JSON.stringify\<close> sees for a note: an object with the six
  properties in the order in which the object literal of \<^verbatim>\<open>saveNote\<close> creates
  them (the spread in the update branch keeps it). A note that was loaded from a blob
  with another order keeps that order in the source; the model writes the order above.
\<close>

definition json_of_string :: "string \<Rightarrow> json" where
  "json_of_string s = JString (units s)"

definition json_of_note :: "Note \<Rightarrow> json" where
  "json_of_note n =
     JObject
       [(units ''id'', json_of_string (id' n)),
        (units ''title'', json_of_string (Note.title n)),
        (units ''content'', json_of_string (Note.content n)),
        (units ''tags'', JArray (map json_of_string (Note.tags n))),
        (units ''createdAt'', json_of_string (createdAt n)),
        (units ''updatedAt'', json_of_string (updatedAt n))]"

definition JSON_stringify :: "Note list \<Rightarrow> string" where
  "JSON_stringify ns = print_json (JArray (map json_of_note ns))"

text \<open>
  The source casts the parsed value to \<^verbatim>\<open>Note[]\<close> without looking at it. The
  typed model holds the value when it is an array of objects with exactly the six
  properties, in any order, each of them a string and \<open>tags\<close> an array of strings;
  any other value is kept as it is in the error \<open>NotNotes\<close> below. The record does
  not keep the order of the properties.
\<close>

fun string_of_units :: "nat list \<Rightarrow> string option" where
  "string_of_units [] = Some []"
| "string_of_units (u # us) =
     (if u < 256
      then (case string_of_units us of None \<Rightarrow> None | Some s \<Rightarrow> Some (char_of u # s))
      else None)"

definition string_of_json :: "json \<Rightarrow> string option" where
  "string_of_json v = (case v of JString us \<Rightarrow> string_of_units us | _ \<Rightarrow> None)"

fun all_some :: "'a option list \<Rightarrow> 'a list option" where
  "all_some [] = Some []"
| "all_some (x # xs) =
     (case x of
        None \<Rightarrow> None
      | Some y \<Rightarrow> (case all_some xs of None \<Rightarrow> None | Some ys \<Rightarrow> Some (y # ys)))"

definition strings_of_json :: "json \<Rightarrow> string list option" where
  "strings_of_json v =
     (case v of JArray vs \<Rightarrow> all_some (map string_of_json vs) | _ \<Rightarrow> None)"

definition property :: "string \<Rightarrow> (nat list \<times> json) list \<Rightarrow> json option" where
  "property k ms = map_of ms (units k)"

definition note_of_json :: "json \<Rightarrow> Note option" where
  "note_of_json v =
     (case v of
        JObject ms \<Rightarrow>
          if length ms = 6
          then
            (case (Option.bind (property ''id'' ms) string_of_json,
                   Option.bind (property ''title'' ms) string_of_json,
                   Option.bind (property ''content'' ms) string_of_json,
                   Option.bind (property ''tags'' ms) strings_of_json,
                   Option.bind (property ''createdAt'' ms) string_of_json,
                   Option.bind (property ''updatedAt'' ms) string_of_json) of
               (Some i, Some t, Some c, Some ts, Some ca, Some ua) \<Rightarrow>
                 Some \<lparr> id' = i, Note.title = t, Note.content = c, Note.tags = ts,
                        createdAt = ca, updatedAt = ua \<rparr>
             | _ \<Rightarrow> None)
          else None
      | _ \<Rightarrow> None)"

definition notes_of_json :: "json \<Rightarrow> Note list option" where
  "notes_of_json v =
     (case v of JArray vs \<Rightarrow> all_some (map note_of_json vs) | _ \<Rightarrow> None)"

text \<open>\<^verbatim>\<open>localStorage\<close>: a map from keys to values.\<close>

type_synonym storage = "string \<Rightarrow> string option"

text \<open>The second effect: after every change of \<open>notes\<close> the whole collection is
  written under the key \<^verbatim>\<open>notes\<close>.\<close>

definition persist :: "state \<Rightarrow> storage \<Rightarrow> storage" where
  "persist st ls = ls(''notes'' \<mapsto> JSON_stringify (notes st))"

text \<open>
  The first effect, run once when the component is mounted. There is no
  \<^verbatim>\<open>try\<close> around \<^verbatim>\<open>JSON.parse\<close>, so its \<^verbatim>\<open>SyntaxError\<close> leaves the
  effect. \<^verbatim>\<open>if (saved)\<close> is false for \<^verbatim>\<open>null\<close> and for the empty string.
\<close>

datatype load_error = SyntaxError | NotNotes json

definition load :: "storage \<Rightarrow> state \<Rightarrow> load_error + state" where
  "load ls st =
     (case ls ''notes'' of
        None \<Rightarrow> Inr st
      | Some saved \<Rightarrow>
          if saved = [] then Inr st
          else
            (case JSON_parse saved of
               None \<Rightarrow> Inl SyntaxError
             | Some v \<Rightarrow>
                 (case notes_of_json v of
                    None \<Rightarrow> Inl (NotNotes v)
                  | Some ns \<Rightarrow> Inr (st\<lparr> notes := ns \<rparr>))))"


section \<open>The specification's vocabulary\<close>

text \<open>
  The predicates of this section are written after the words of the specification, not
  after the code; the theorems below relate them to the code.
\<close>

text \<open>Case-insensitive containment: the lower-cased query occurs somewhere in the
  lower-cased text.\<close>

definition contains_ci :: "string \<Rightarrow> string \<Rightarrow> bool" where
  "contains_ci s q = (\<exists>pre suf. toLowerCase s = pre @ toLowerCase q @ suf)"

definition spec_search :: "string \<Rightarrow> Note \<Rightarrow> bool" where
  "spec_search q n =
     (q = [] \<or> contains_ci (Note.title n) q \<or> contains_ci (Note.content n) q \<or>
      (\<exists>t \<in> set (Note.tags n). contains_ci t q))"

definition spec_tag :: "string option \<Rightarrow> Note \<Rightarrow> bool" where
  "spec_tag sel n = (sel = None \<or> (\<exists>t. sel = Some t \<and> t \<in> set (Note.tags n)))"

text \<open>A note whose \<open>updatedAt\<close> is a date, and the order of two such notes by
  recency.\<close>

definition dated :: "(string \<Rightarrow> int option) \<Rightarrow> Note \<Rightarrow> bool" where
  "dated getTime n = (getTime (updatedAt n) \<noteq> None)"

definition newer_or_same :: "(string \<Rightarrow> int option) \<Rightarrow> Note \<Rightarrow> Note \<Rightarrow> bool" where
  "newer_or_same getTime a b =
     (case (getTime (updatedAt a), getTime (updatedAt b)) of
        (Some ta, Some tb) \<Rightarrow> tb \<le> ta
      | _ \<Rightarrow> False)"


text \<open>The date of a dated note, in milliseconds.\<close>

definition time_of :: "(string \<Rightarrow> int option) \<Rightarrow> Note \<Rightarrow> int" where
  "time_of getTime n = (case getTime (updatedAt n) of None \<Rightarrow> 0 | Some t \<Rightarrow> t)"

text \<open>A comparator that compares keys on the set \<open>S\<close>: it puts \<open>x\<close> before \<open>y\<close>
  exactly when the key of \<open>x\<close> is the larger one.\<close>

definition by_key :: "('a \<Rightarrow> 'a \<Rightarrow> int option) \<Rightarrow> ('a \<Rightarrow> int) \<Rightarrow> 'a set \<Rightarrow> bool" where
  "by_key cmp k S = (\<forall>x \<in> S. \<forall>y \<in> S. (order cmp x y < 0) = (k y < k x))"

text \<open>A draft that is blank: title and content are both empty after trimming.\<close>

definition blank :: "state \<Rightarrow> bool" where
  "blank st = (trim (state.title st) = [] \<and> trim (state.content st) = [])"

text \<open>A tag as \<^verbatim>\<open>addTag\<close> stores it: trimmed, then lower-cased. A tag list is tidy
  when its entries are pairwise different and each is already in that form.\<close>

definition normalize :: "string \<Rightarrow> string" where
  "normalize t = toLowerCase (trim t)"

definition tidy :: "string list \<Rightarrow> bool" where
  "tidy ts = (distinct ts \<and> (\<forall>t \<in> set ts. normalize t = t))"

section \<open>Sample data\<close>

text \<open>The values of \<^verbatim>\<open>new Date(s).getTime()\<close> at two dates, \<^verbatim>\<open>NaN\<close> elsewhere.\<close>

definition sample_getTime :: "string \<Rightarrow> int option" where
  "sample_getTime s =
     (if s = ''2024-01-01T00:00:00.000Z'' then Some 1704067200000
      else if s = ''2024-01-02T00:00:00.000Z'' then Some 1704153600000
      else None)"

definition groceries :: Note where
  "groceries = \<lparr> id' = ''1704067200000'', Note.title = ''Groceries'',
     Note.content = ''Milk, eggs'', Note.tags = [''home''],
     createdAt = ''2024-01-01T00:00:00.000Z'', updatedAt = ''2024-01-01T00:00:00.000Z'' \<rparr>"

definition report :: Note where
  "report = \<lparr> id' = ''1704153600000'', Note.title = ''Report'',
     Note.content = ''Quarterly figures'', Note.tags = [''work''],
     createdAt = ''2024-01-02T00:00:00.000Z'', updatedAt = ''2024-01-02T00:00:00.000Z'' \<rparr>"

text \<open>The editor opened on a new note, with two spaces typed as its content.\<close>

definition blank_draft :: state where
  "blank_draft = setContent ''  '' (createNote initial)"


definition two_notes :: state where
  "two_notes = initial\<lparr> notes := [groceries, report] \<rparr>"

definition eggs_at_home :: state where
  "eggs_at_home = two_notes\<lparr> searchQuery := ''EGGS'', selectedTag := Some ''home'' \<rparr>"

text \<open>The editor opened on the groceries note, with title and content erased.\<close>

definition erased_draft :: state where
  "erased_draft = setContent [] (setTitle [] (editNote groceries two_notes))"

text \<open>The editor opened on the groceries note, with a new title typed.\<close>

definition retitled_draft :: state where
  "retitled_draft = setTitle ''  Shopping  '' (editNote groceries two_notes)"

text \<open>The editor opened on a new note, with a title typed.\<close>

definition new_draft :: state where
  "new_draft = setTitle ''  x  '' (createNote two_notes)"

text \<open>A session of tag editing on a new note.\<close>

definition tag_session :: "draft_event list" where
  "tag_session =
     [TypeTag ''  Home '', AddTag, AddTag, TypeTag ''HOME'', AddTag, TypeTag ''Work'', AddTag,
      TypeTag ''   '', AddTag]"


text \<open>A collection with a note whose \<open>updatedAt\<close> is no date, between an older and
  a newer note.\<close>

definition memo :: Note where
  "memo = \<lparr> id' = ''1704110400000'', Note.title = ''Memo'',
     Note.content = ''Call back'', Note.tags = [],
     createdAt = ''2024-01-01T12:00:00.000Z'', updatedAt = ''bogus'' \<rparr>"

definition undated_notes :: state where
  "undated_notes = initial\<lparr> notes := [groceries, memo, report] \<rparr>"

text \<open>The first step of the specification's example: a note made in the editor.\<close>

definition first_note :: state where
  "first_note =
     saveNote 1704067200000 ''2024-01-01T00:00:00.000Z''
       (addTag (setTagInput ''home''
          (setContent ''Milk, eggs'' (setTitle ''Groceries'' (createNote initial)))))"

text \<open>A store whose blob was cut off in the middle of the second property.\<close>

definition truncated_blob :: storage where
  "truncated_blob = Map.empty(''notes'' \<mapsto> ''[{\"id\":\"1704067200000\",\"title\":\"Gro'')"


section \<open>Blank drafts\<close>

lemma dropWhile_all_white:
  "(\<forall>c \<in> set (dropWhile P s). P c) \<longleftrightarrow> (\<forall>c \<in> set s. P c)"
  by (induction s) auto

lemma trim_Nil_iff: "trim s = [] \<longleftrightarrow> (\<forall>c \<in> set s. is_white c)"
  by (simp add: trim_def dropWhile_all_white)


text \<open>
  Claim C1, as amended. Save pressed in the editor on a draft whose title and content
  are both blank after trimming changes nothing at all: the collection is as before,
  the session stays in the editor, and the draft is kept.
\<close>

theorem save_blank_draft_stays_in_editor:
  assumes "isEditing st"
    and "trim (state.title st) = []"
    and "trim (state.content st) = []"
  shows "notes (saveNote ms now st) = notes st \<and> isEditing (saveNote ms now st) \<and>
         saveNote ms now st = st"
  using assms by (simp add: saveNote_def)

theorem save_blank_draft_witness:
  "isEditing blank_draft \<and>
   trim (state.title blank_draft) = [] \<and>
   trim (state.content blank_draft) = [] \<and>
   saveNote 1704067200000 ''2024-01-01T00:00:00.000Z'' blank_draft = blank_draft"
proof -
  have e: "isEditing blank_draft"
    by (simp add: blank_draft_def setContent_def createNote_def)
  have t: "trim (state.title blank_draft) = []"
    by (simp add: blank_draft_def setContent_def createNote_def trim_def)
  have c: "trim (state.content blank_draft) = []"
    by (simp add: blank_draft_def setContent_def createNote_def trim_Nil_iff is_white_def)
  from save_blank_draft_stays_in_editor [OF e t c] e t c show ?thesis by simp
qed

text \<open>Claim C1 as stated expects the session back in the list view; on the blank
  draft it is still in the editor after Save.\<close>

theorem save_blank_draft_counterexample:
  "\<not> (notes (saveNote 1704067200000 ''2024-01-01T00:00:00.000Z'' blank_draft)
        = notes blank_draft \<and>
       isEditing (saveNote 1704067200000 ''2024-01-01T00:00:00.000Z'' blank_draft) = False)"
  by (simp add: saveNote_def blank_draft_def setContent_def createNote_def initial_def
      trim_def is_white_def)


section \<open>The visible list: filters\<close>

lemma startsWith_iff: "startsWith s q \<longleftrightarrow> (\<exists>suf. s = q @ suf)"
  by (induction s q rule: startsWith.induct) auto

lemma str_includes_iff: "str_includes s q \<longleftrightarrow> (\<exists>pre suf. s = pre @ q @ suf)"
proof (induction s)
  case Nil
  then show ?case by (auto simp: startsWith_iff)
next
  case (Cons c cs)
  show ?case
  proof
    assume "str_includes (c # cs) q"
    then consider "startsWith (c # cs) q" | "str_includes cs q" by auto
    then show "\<exists>pre suf. c # cs = pre @ q @ suf"
    proof cases
      case 1
      then obtain suf where "c # cs = q @ suf" by (auto simp: startsWith_iff)
      then have "c # cs = [] @ q @ suf" by simp
      then show ?thesis by blast
    next
      case 2
      with Cons obtain pre suf where "cs = pre @ q @ suf" by auto
      then have "c # cs = (c # pre) @ q @ suf" by simp
      then show ?thesis by blast
    qed
  next
    assume "\<exists>pre suf. c # cs = pre @ q @ suf"
    then obtain pre suf where e: "c # cs = pre @ q @ suf" by auto
    show "str_includes (c # cs) q"
    proof (cases pre)
      case Nil
      with e have "startsWith (c # cs) q" by (simp add: startsWith_iff)
      then show ?thesis by simp
    next
      case (Cons p ps)
      with e have "cs = ps @ q @ suf" by simp
      with Cons.IH show ?thesis by auto
    qed
  qed
qed

lemma matchesSearch_spec: "matchesSearch q n = spec_search q n"
  by (simp add: matchesSearch_def spec_search_def contains_ci_def str_includes_iff list_ex_iff)

lemma matchesTag_spec: "matchesTag sel n = spec_tag sel n"
  by (cases sel) (simp_all add: matchesTag_def spec_tag_def)

lemma extend_run_append: "extend_run cmp desc prev xs = (seg, rest) \<Longrightarrow> seg @ rest = xs"
  by (induction xs arbitrary: prev seg rest) (auto split: if_splits prod.splits)

lemma binary_insert_Cons:
  "ys \<noteq> [] \<Longrightarrow>
   binary_insert cmp p ys =
     (if order cmp p (ys ! (length ys div 2)) < 0
      then binary_insert cmp p (take (length ys div 2) ys) @ drop (length ys div 2) ys
      else take (Suc (length ys div 2)) ys @ binary_insert cmp p (drop (Suc (length ys div 2)) ys))"
proof (cases ys)
  case Nil
  assume "ys \<noteq> []"
  with Nil show ?thesis by simp
next
  case (Cons y zs)
  show ?thesis unfolding Cons by (simp only: binary_insert.simps Let_def)
qed

lemma set_binary_insert: "set (binary_insert cmp p ys) = insert p (set ys)"
proof (induction "length ys" arbitrary: ys rule: less_induct)
  case less
  show ?case
  proof (cases "ys = []")
    case True
    then show ?thesis by simp
  next
    case False
    let ?mid = "length ys div 2"
    from False have m: "?mid < length ys" by simp
    have a: "set (take ?mid ys) \<union> set (drop ?mid ys) = set ys"
      by (metis append_take_drop_id set_append)
    have b: "set (take (Suc ?mid) ys) \<union> set (drop (Suc ?mid) ys) = set ys"
      by (metis append_take_drop_id set_append)
    have l: "set (binary_insert cmp p (take ?mid ys)) = insert p (set (take ?mid ys))"
      using m by (intro less) simp
    have r: "set (binary_insert cmp p (drop (Suc ?mid) ys)) = insert p (set (drop (Suc ?mid) ys))"
      using m by (intro less) simp
    show ?thesis
    proof (cases "order cmp p (ys ! ?mid) < 0")
      case True
      then have "set (binary_insert cmp p ys) = insert p (set (take ?mid ys)) \<union> set (drop ?mid ys)"
        using l by (subst binary_insert_Cons [OF False]) simp
      with a show ?thesis by auto
    next
      case c: False
      then have "set (binary_insert cmp p ys) = set (take (Suc ?mid) ys) \<union> insert p (set (drop (Suc ?mid) ys))"
        using r by (subst binary_insert_Cons [OF False]) simp
      with b show ?thesis by auto
    qed
  qed
qed

lemma set_insert_all: "set (insert_all cmp acc ps) = set acc \<union> set ps"
  by (induction ps arbitrary: acc) (auto simp: set_binary_insert)

lemma set_array_sort: "set (array_sort cmp xs) = set xs"
proof (cases xs)
  case Nil
  then show ?thesis by simp
next
  case (Cons x0 ys)
  show ?thesis
  proof (cases ys)
    case Nil
    with Cons show ?thesis by simp
  next
    case (Cons x1 zs)
    obtain seg rest where r: "extend_run cmp (order cmp x1 x0 < 0) x0 (x1 # zs) = (seg, rest)"
      by (cases "extend_run cmp (order cmp x1 x0 < 0) x0 (x1 # zs)")
    then have "seg @ rest = x1 # zs" by (rule extend_run_append)
    then have "set seg \<union> set rest = set (x1 # zs)" by (metis set_append)
    with r \<open>xs = x0 # ys\<close> Cons show ?thesis
      by (auto simp: Let_def set_insert_all)
  qed
qed

lemma set_filteredNotes:
  "set (filteredNotes getTime st) =
     {n \<in> set (notes st). matchesSearch (searchQuery st) n \<and> matchesTag (selectedTag st) n}"
  by (simp add: filteredNotes_def set_array_sort)

text \<open>
  Claim C3. A note is in the visible list exactly when it is in the collection and
  passes both filters: the selected tag is unset or is one of the note's tags, and the
  query is empty or is contained, case-insensitively, in the title, in the content or
  in one of the tags.
\<close>

theorem visible_iff_both_filters:
  "n \<in> set (filteredNotes getTime st) \<longleftrightarrow>
     n \<in> set (notes st) \<and> spec_tag (selectedTag st) n \<and> spec_search (searchQuery st) n"
  by (auto simp: set_filteredNotes matchesSearch_spec matchesTag_spec)

lemma filteredNotes_eggs: "filteredNotes sample_getTime eggs_at_home = [groceries]"
  by code_simp

theorem visible_iff_both_filters_witness:
  "groceries \<in> set (filteredNotes sample_getTime eggs_at_home) \<and>
   groceries \<in> set (notes eggs_at_home) \<and>
   spec_tag (selectedTag eggs_at_home) groceries \<and>
   spec_search (searchQuery eggs_at_home) groceries \<and>
   report \<notin> set (filteredNotes sample_getTime eggs_at_home) \<and>
   \<not> spec_tag (selectedTag eggs_at_home) report"
proof -
  have g: "groceries \<in> set (filteredNotes sample_getTime eggs_at_home)"
    by (simp add: filteredNotes_eggs)
  have r: "report \<notin> set (filteredNotes sample_getTime eggs_at_home)"
    by (simp add: filteredNotes_eggs groceries_def report_def)
  have t: "\<not> spec_tag (selectedTag eggs_at_home) report"
    by (simp add: spec_tag_def eggs_at_home_def report_def)
  from visible_iff_both_filters [of groceries sample_getTime eggs_at_home] g r t
  show ?thesis by simp
qed


section \<open>The visible list: order\<close>

lemma by_key_subset: "by_key cmp k S \<Longrightarrow> T \<subseteq> S \<Longrightarrow> by_key cmp k T"
  by (auto simp: by_key_def)

lemma by_keyD: "by_key cmp k S \<Longrightarrow> x \<in> S \<Longrightarrow> y \<in> S \<Longrightarrow> (order cmp x y < 0) = (k y < k x)"
  by (simp add: by_key_def)

lemma binary_insert_by_key:
  assumes "by_key cmp k (insert p (set ys))" and "sorted_wrt (\<lambda>a b. k b \<le> k a) ys"
  shows "binary_insert cmp p ys =
           filter (\<lambda>x. k p \<le> k x) ys @ p # filter (\<lambda>x. k x < k p) ys"
  using assms
proof (induction "length ys" arbitrary: ys rule: less_induct)
  case less
  show ?case
  proof (cases "ys = []")
    case True
    then show ?thesis by simp
  next
    case False
    let ?mid = "length ys div 2"
    let ?l = "take ?mid ys" and ?m = "ys ! ?mid" and ?r = "drop (Suc ?mid) ys"
    from False have mid: "?mid < length ys" by simp
    then have ys: "ys = ?l @ ?m # ?r" by (rule id_take_nth_drop)
    have dr: "drop ?mid ys = ?m # ?r" using mid by (simp add: Cons_nth_drop_Suc)
    have tk: "take (Suc ?mid) ys = ?l @ [?m]" using mid by (simp add: take_Suc_conv_app_nth)
    have srt: "sorted_wrt (\<lambda>a b. k b \<le> k a) (?l @ ?m # ?r)" using less.prems(2) ys by simp
    then have lm: "\<forall>a \<in> set ?l. k ?m \<le> k a" and mr: "\<forall>b \<in> set ?r. k b \<le> k ?m"
      and sl: "sorted_wrt (\<lambda>a b. k b \<le> k a) ?l" and sr: "sorted_wrt (\<lambda>a b. k b \<le> k a) ?r"
      by (auto simp: sorted_wrt_append)
    have sub: "set ?l \<subseteq> set ys" "set ?r \<subseteq> set ys" "?m \<in> set ys"
      using mid by (auto dest: in_set_takeD in_set_dropD)
    have ord: "(order cmp p ?m < 0) = (k ?m < k p)"
      using less.prems(1) sub by (intro by_keyD [where S = "insert p (set ys)"]) auto
    show ?thesis
    proof (cases "order cmp p ?m < 0")
      case True
      with ord have kp: "k ?m < k p" by simp
      have "by_key cmp k (insert p (set ?l))"
        using less.prems(1) sub by (auto intro: by_key_subset)
      then have ih: "binary_insert cmp p ?l =
          filter (\<lambda>x. k p \<le> k x) ?l @ p # filter (\<lambda>x. k x < k p) ?l"
        using mid sl by (intro less.hyps) simp_all
      have f1: "filter (\<lambda>x. k p \<le> k x) (?m # ?r) = []" using kp mr by (auto simp: filter_empty_conv)
      have f2: "filter (\<lambda>x. k x < k p) (?m # ?r) = ?m # ?r" using kp mr by (auto simp: filter_id_conv)
      have "binary_insert cmp p ys = binary_insert cmp p ?l @ ?m # ?r"
        using True dr by (subst binary_insert_Cons [OF False]) simp
      also have "\<dots> = filter (\<lambda>x. k p \<le> k x) (?l @ ?m # ?r) @ p # filter (\<lambda>x. k x < k p) (?l @ ?m # ?r)"
        unfolding filter_append f1 f2 ih by simp
      finally show ?thesis using ys by simp
    next
      case c: False
      with ord have kp: "k p \<le> k ?m" by simp
      have "by_key cmp k (insert p (set ?r))"
        using less.prems(1) sub by (auto intro: by_key_subset)
      then have ih: "binary_insert cmp p ?r =
          filter (\<lambda>x. k p \<le> k x) ?r @ p # filter (\<lambda>x. k x < k p) ?r"
        using mid sr by (intro less.hyps) simp_all
      have f1: "filter (\<lambda>x. k p \<le> k x) (?l @ [?m]) = ?l @ [?m]" using kp lm by (auto simp: filter_id_conv)
      have f2: "filter (\<lambda>x. k x < k p) (?l @ [?m]) = []" using kp lm by (auto simp: filter_empty_conv)
      have "binary_insert cmp p ys = (?l @ [?m]) @ binary_insert cmp p ?r"
        using c tk by (subst binary_insert_Cons [OF False]) simp
      also have "\<dots> = filter (\<lambda>x. k p \<le> k x) ((?l @ [?m]) @ ?r) @ p # filter (\<lambda>x. k x < k p) ((?l @ [?m]) @ ?r)"
        unfolding filter_append [of _ "?l @ [?m]" ?r] f1 f2 ih by simp
      finally show ?thesis using ys by simp
    qed
  qed
qed

lemma sorted_binary_insert:
  assumes "by_key cmp k (insert p (set ys))" and "sorted_wrt (\<lambda>a b. k b \<le> k a) ys"
  shows "sorted_wrt (\<lambda>a b. k b \<le> k a) (binary_insert cmp p ys)"
  using assms(2) unfolding binary_insert_by_key [OF assms]
  by (auto simp: sorted_wrt_append sorted_wrt_filter)

lemma split_by_key:
  "sorted_wrt (\<lambda>a b. k b \<le> k a) ys \<Longrightarrow>
     filter (\<lambda>x. (c::int) \<le> k x) ys @ filter (\<lambda>x. k x < c) ys = ys"
proof (induction ys)
  case Nil
  then show ?case by simp
next
  case (Cons a ys)
  show ?case
  proof (cases "c \<le> k a")
    case True
    with Cons show ?thesis by simp
  next
    case False
    with Cons.prems have "\<forall>x \<in> set ys. k x < c" by auto
    then have "filter (\<lambda>x. c \<le> k x) ys = []" "filter (\<lambda>x. k x < c) ys = ys"
      by (auto simp: filter_empty_conv filter_id_conv)
    with False show ?thesis by simp
  qed
qed

lemma stable_binary_insert:
  assumes "by_key cmp k (insert p (set ys))" and "sorted_wrt (\<lambda>a b. k b \<le> k a) ys"
  shows "filter (\<lambda>x. k x = t) (binary_insert cmp p ys) = filter (\<lambda>x. k x = t) (ys @ [p])"
proof -
  let ?P = "\<lambda>x. k x = t"
  have "filter ?P ys = filter ?P (filter (\<lambda>x. k p \<le> k x) ys) @ filter ?P (filter (\<lambda>x. k x < k p) ys)"
    using split_by_key [OF assms(2), of "k p"] by (metis filter_append)
  moreover have "filter ?P (filter (\<lambda>x. k x < k p) ys) = []" if "k p = t"
    using that by (auto simp: filter_empty_conv)
  ultimately show ?thesis
    unfolding binary_insert_by_key [OF assms] by auto
qed

lemma insert_all_by_key:
  assumes "by_key cmp k (set acc \<union> set ps)" and "sorted_wrt (\<lambda>a b. k b \<le> k a) acc"
  shows "sorted_wrt (\<lambda>a b. k b \<le> k a) (insert_all cmp acc ps) \<and>
         filter (\<lambda>x. k x = t) (insert_all cmp acc ps) = filter (\<lambda>x. k x = t) (acc @ ps)"
  using assms
proof (induction ps arbitrary: acc)
  case Nil
  then show ?case by simp
next
  case (Cons p ps)
  have b: "by_key cmp k (insert p (set acc))"
    using Cons.prems(1) by (auto intro: by_key_subset)
  have s: "sorted_wrt (\<lambda>a b. k b \<le> k a) (binary_insert cmp p acc)"
    using b Cons.prems(2) by (rule sorted_binary_insert)
  have "by_key cmp k (set (binary_insert cmp p acc) \<union> set ps)"
    using Cons.prems(1) by (auto simp: set_binary_insert intro: by_key_subset)
  from Cons.IH [OF this s] stable_binary_insert [OF b Cons.prems(2), of t]
  show ?case by simp
qed

lemma extend_run_ascending:
  assumes "extend_run cmp False prev xs = (seg, rest)" and "by_key cmp k (insert prev (set xs))"
  shows "sorted_wrt (\<lambda>a b. k b \<le> k a) (prev # seg)"
  using assms
proof (induction xs arbitrary: prev seg rest)
  case Nil
  then show ?case by simp
next
  case (Cons x xs)
  show ?case
  proof (cases "order cmp x prev < 0")
    case True
    with Cons.prems(1) show ?thesis by simp
  next
    case False
    then obtain seg' where r: "extend_run cmp False x xs = (seg', rest)" and seg: "seg = x # seg'"
      using Cons.prems(1) by (auto split: prod.splits)
    have "(order cmp x prev < 0) = (k prev < k x)"
      using Cons.prems(2) by (intro by_keyD [where S = "insert prev (set (x # xs))"]) auto
    with False have px: "k x \<le> k prev" by simp
    have "by_key cmp k (insert x (set xs))"
      using Cons.prems(2) by (auto intro: by_key_subset)
    with r have s: "sorted_wrt (\<lambda>a b. k b \<le> k a) (x # seg')" by (rule Cons.IH)
    with px have "\<forall>y \<in> set seg'. k y \<le> k prev" by auto
    with s px seg show ?thesis by simp
  qed
qed

lemma extend_run_descending:
  assumes "extend_run cmp True prev xs = (seg, rest)" and "by_key cmp k (insert prev (set xs))"
  shows "sorted_wrt (\<lambda>a b. k a < k b) (prev # seg)"
  using assms
proof (induction xs arbitrary: prev seg rest)
  case Nil
  then show ?case by simp
next
  case (Cons x xs)
  show ?case
  proof (cases "order cmp x prev < 0")
    case False
    with Cons.prems(1) show ?thesis by simp
  next
    case True
    then obtain seg' where r: "extend_run cmp True x xs = (seg', rest)" and seg: "seg = x # seg'"
      using Cons.prems(1) by (auto split: prod.splits)
    have "(order cmp x prev < 0) = (k prev < k x)"
      using Cons.prems(2) by (intro by_keyD [where S = "insert prev (set (x # xs))"]) auto
    with True have px: "k prev < k x" by simp
    have "by_key cmp k (insert x (set xs))"
      using Cons.prems(2) by (auto intro: by_key_subset)
    with r have s: "sorted_wrt (\<lambda>a b. k a < k b) (x # seg')" by (rule Cons.IH)
    with px have "\<forall>y \<in> set seg'. k prev < k y" by auto
    with s px seg show ?thesis by simp
  qed
qed

lemma rev_descending:
  assumes "sorted_wrt (\<lambda>a b. k a < k b) (ys :: 'a list)"
  shows "sorted_wrt (\<lambda>a b. k b \<le> (k a :: int)) (rev ys) \<and>
         filter (\<lambda>x. k x = t) (rev ys) = filter (\<lambda>x. k x = t) ys"
  using assms
proof (induction ys)
  case Nil
  then show ?case by simp
next
  case (Cons y ys)
  then have "filter (\<lambda>x. k x = t) ys = []" if "k y = t"
    using that by (auto simp: filter_empty_conv)
  with Cons show ?case by (auto simp: sorted_wrt_append)
qed

lemma array_sort_by_key:
  assumes "by_key cmp k (set xs)"
  shows "sorted_wrt (\<lambda>a b. k b \<le> k a) (array_sort cmp xs) \<and>
         filter (\<lambda>x. k x = t) (array_sort cmp xs) = filter (\<lambda>x. k x = t) xs"
proof (cases xs)
  case Nil
  then show ?thesis by simp
next
  case (Cons x0 ys)
  show ?thesis
  proof (cases ys)
    case Nil
    with Cons show ?thesis by simp
  next
    case ys: (Cons x1 zs)
    let ?desc = "order cmp x1 x0 < 0"
    obtain seg rest where r: "extend_run cmp ?desc x0 (x1 # zs) = (seg, rest)"
      by (cases "extend_run cmp ?desc x0 (x1 # zs)")
    then have app: "seg @ rest = x1 # zs" by (rule extend_run_append)
    then have xs: "xs = (x0 # seg) @ rest" using Cons ys by simp
    have bk: "by_key cmp k (insert x0 (set (x1 # zs)))" using assms Cons ys by simp
    let ?start = "if ?desc then rev (x0 # seg) else x0 # seg"
    have start: "sorted_wrt (\<lambda>a b. k b \<le> k a) ?start \<and>
                 filter (\<lambda>x. k x = t) ?start = filter (\<lambda>x. k x = t) (x0 # seg)"
    proof (cases ?desc)
      case True
      with r have "extend_run cmp True x0 (x1 # zs) = (seg, rest)" by simp
      then have "sorted_wrt (\<lambda>a b. k a < k b) (x0 # seg)" using bk by (rule extend_run_descending)
      from rev_descending [OF this, of t] True show ?thesis by simp
    next
      case False
      with r have "extend_run cmp False x0 (x1 # zs) = (seg, rest)" by simp
      then have "sorted_wrt (\<lambda>a b. k b \<le> k a) (x0 # seg)" using bk by (rule extend_run_ascending)
      with False show ?thesis by simp
    qed
    have "set ?start \<union> set rest = set xs" using xs by auto
    with assms have "by_key cmp k (set ?start \<union> set rest)" by simp
    from insert_all_by_key [OF this, of t] start
    have "sorted_wrt (\<lambda>a b. k b \<le> k a) (insert_all cmp ?start rest) \<and>
          filter (\<lambda>x. k x = t) (insert_all cmp ?start rest) = filter (\<lambda>x. k x = t) ((x0 # seg) @ rest)"
      by simp
    moreover have "array_sort cmp xs = insert_all cmp ?start rest"
      using Cons ys r by (simp add: Let_def)
    ultimately show ?thesis using xs by simp
  qed
qed

text \<open>The comparator of the visible list compares the dates of dated notes.\<close>

lemma by_key_dated:
  assumes "\<forall>n \<in> set xs. dated getTime n"
  shows "by_key (compareUpdatedAt getTime) (time_of getTime) (set xs)"
proof -
  have "(order (compareUpdatedAt getTime) x y < 0) = (time_of getTime y < time_of getTime x)"
    if "dated getTime x" "dated getTime y" for x y
    using that by (auto simp: dated_def order_def compareUpdatedAt_def time_of_def)
  with assms show ?thesis by (simp add: by_key_def)
qed

lemma newer_or_same_dated:
  "dated getTime a \<Longrightarrow> dated getTime b \<Longrightarrow>
     newer_or_same getTime a b = (time_of getTime b \<le> time_of getTime a)"
  by (auto simp: dated_def newer_or_same_def time_of_def)

lemma updatedAt_dated:
  "dated getTime n \<Longrightarrow> (getTime (updatedAt n) = Some t) = (time_of getTime n = t)"
  by (auto simp: dated_def time_of_def)

lemma sorted_array_sort_dated:
  assumes "\<forall>n \<in> set xs. dated getTime n"
  shows "sorted_wrt (newer_or_same getTime) (array_sort (compareUpdatedAt getTime) xs)"
proof -
  let ?ys = "array_sort (compareUpdatedAt getTime) xs"
  have "sorted_wrt (\<lambda>a b. time_of getTime b \<le> time_of getTime a) ?ys"
    using array_sort_by_key [OF by_key_dated [OF assms]] by blast
  moreover have "\<forall>n \<in> set ?ys. dated getTime n" using assms by (simp add: set_array_sort)
  ultimately show ?thesis
    by (auto simp: newer_or_same_dated elim: sorted_wrt_mono_rel [rotated])
qed

lemma stable_array_sort_dated:
  assumes "\<forall>n \<in> set xs. dated getTime n"
  shows "filter (\<lambda>n. getTime (updatedAt n) = Some t) (array_sort (compareUpdatedAt getTime) xs)
       = filter (\<lambda>n. getTime (updatedAt n) = Some t) xs"
proof -
  let ?ys = "array_sort (compareUpdatedAt getTime) xs"
  have "filter (\<lambda>n. getTime (updatedAt n) = Some t) ?ys = filter (\<lambda>n. time_of getTime n = t) ?ys"
    using assms by (intro filter_cong) (simp_all add: set_array_sort updatedAt_dated)
  also have "\<dots> = filter (\<lambda>n. time_of getTime n = t) xs"
    using array_sort_by_key [OF by_key_dated [OF assms]] by blast
  also have "\<dots> = filter (\<lambda>n. getTime (updatedAt n) = Some t) xs"
    using assms by (intro filter_cong) (simp_all add: updatedAt_dated)
  finally show ?thesis .
qed

text \<open>Every note that the component writes is dated when the clock string is: saving
  and deleting keep the hypothesis of the theorem. Loading does not establish it.\<close>

lemma dated_saveNote:
  assumes "\<forall>n \<in> set (notes st). dated getTime n" and "getTime now \<noteq> None"
  shows "\<forall>n \<in> set (notes (saveNote ms now st)). dated getTime n"
  using assms by (auto simp: saveNote_def dated_def split: option.splits)

lemma dated_deleteNote:
  "\<forall>n \<in> set (notes st). dated getTime n \<Longrightarrow>
     \<forall>n \<in> set (notes (deleteNote ok i st)). dated getTime n"
  by (simp add: deleteNote_def)

text \<open>
  Claim C4, as amended. When every note of the collection carries a date in
  \<open>updatedAt\<close>, then for every search query and tag selection the visible list is in
  non-increasing order of that date, and notes with the same date keep the order they
  have in the collection.
\<close>

theorem visible_sorted_by_updatedAt:
  assumes "\<forall>n \<in> set (notes st). dated getTime n"
  shows "sorted_wrt (newer_or_same getTime) (filteredNotes getTime st) \<and>
         (\<forall>t. filter (\<lambda>n. getTime (updatedAt n) = Some t) (filteredNotes getTime st) =
              filter (\<lambda>n. getTime (updatedAt n) = Some t)
                (filter (\<lambda>n. matchesSearch (searchQuery st) n \<and> matchesTag (selectedTag st) n)
                   (notes st)))"
  using assms by (simp add: filteredNotes_def sorted_array_sort_dated stable_array_sort_dated)

lemma filteredNotes_two: "filteredNotes sample_getTime two_notes = [report, groceries]"
  by code_simp

theorem visible_sorted_by_updatedAt_witness:
  "dated sample_getTime groceries \<and> dated sample_getTime report \<and>
   notes two_notes = [groceries, report] \<and>
   filteredNotes sample_getTime two_notes = [report, groceries] \<and>
   sorted_wrt (newer_or_same sample_getTime) (filteredNotes sample_getTime two_notes)"
proof -
  have g: "dated sample_getTime groceries"
    by (simp add: dated_def sample_getTime_def groceries_def)
  have r: "dated sample_getTime report"
    by (simp add: dated_def sample_getTime_def report_def)
  have n: "notes two_notes = [groceries, report]"
    by (simp add: two_notes_def)
  have "\<forall>n \<in> set (notes two_notes). dated sample_getTime n"
    using g r n by simp
  from visible_sorted_by_updatedAt [OF this] g r n filteredNotes_two
  show ?thesis by simp
qed


text \<open>Claim C4 as stated speaks of every collection; with a note that has no date
  between them, the older groceries note is shown before the newer report.\<close>

theorem visible_undated_counterexample:
  "filteredNotes sample_getTime undated_notes = [groceries, memo, report] \<and>
   sample_getTime (updatedAt groceries) = Some 1704067200000 \<and>
   sample_getTime (updatedAt report) = Some 1704153600000 \<and>
   \<not> sorted_wrt (newer_or_same sample_getTime) (filteredNotes sample_getTime undated_notes)"
proof -
  have f: "filteredNotes sample_getTime undated_notes = [groceries, memo, report]"
    by code_simp
  have g: "sample_getTime (updatedAt groceries) = Some 1704067200000"
    by (simp add: sample_getTime_def groceries_def)
  have r: "sample_getTime (updatedAt report) = Some 1704153600000"
    by (simp add: sample_getTime_def report_def)
  have "\<not> newer_or_same sample_getTime groceries report"
    by (simp add: newer_or_same_def g r)
  with f g r show ?thesis by simp
qed


text \<open>A second sample off the hypothesis, where the start of the array is a descending
  run: the two notes of 2 January come first, the undated memo stays behind the
  groceries note.\<close>

lemma visible_undated_sample:
  "filteredNotes sample_getTime
     (initial\<lparr> notes := [groceries, report, memo, report\<lparr> id' := ''1704153600001'' \<rparr>] \<rparr>)
   = [report, report\<lparr> id' := ''1704153600001'' \<rparr>, groceries, memo]"
  by code_simp


section \<open>Saving a draft\<close>

lemma saveNote_update:
  "\<not> blank st \<Longrightarrow> currentNote st = Some cur \<Longrightarrow>
   notes (saveNote ms now st) =
     map (\<lambda>n. if id' n = id' cur
               then n\<lparr> Note.title := state.title st, Note.content := state.content st,
                       Note.tags := state.tags st, updatedAt := now \<rparr>
               else n) (notes st)"
  by (auto simp: saveNote_def blank_def)

lemma saveNote_create:
  "\<not> blank st \<Longrightarrow> currentNote st = None \<Longrightarrow>
   notes (saveNote ms now st) =
     \<lparr> id' = toString ms, Note.title = state.title st, Note.content = state.content st,
       Note.tags = state.tags st, createdAt = now, updatedAt = now \<rparr> # notes st"
  by (simp add: saveNote_def blank_def)

lemma saveNote_blank_draft: "blank st \<Longrightarrow> saveNote ms now st = st"
  by (simp add: saveNote_def blank_def)

lemma new_draft_not_blank: "\<not> blank new_draft"
  by (simp add: blank_def new_draft_def setTitle_def createNote_def trim_def is_white_def)

lemma toString_sample: "toString 1704067200000 = ''1704067200000''"
  by (simp add: toString.simps)

lemma toString_sample2: "toString 1704240000000 = ''1704240000000''"
  by (simp add: toString.simps)

lemma retitled_not_blank: "\<not> blank retitled_draft"
  by (simp add: blank_def retitled_draft_def setTitle_def editNote_def trim_def is_white_def)

text \<open>
  Claim C5, as amended. Save on a draft that is bound to a note and is not blank
  rewrites the collection in place: at every position whose note carries the bound
  identifier, title, content and tags become the draft's and \<open>updatedAt\<close> becomes the
  current time, while the identifier and \<open>createdAt\<close> stay; at every other position the
  note is untouched. The collection keeps its length.
\<close>

theorem update_replaces_bound_note:
  assumes "\<not> blank st" and "currentNote st = Some cur" and "i < length (notes st)"
  shows "length (notes (saveNote ms now st)) = length (notes st) \<and>
         (if id' (notes st ! i) = id' cur
          then notes (saveNote ms now st) ! i =
                 \<lparr> id' = id' (notes st ! i), Note.title = state.title st,
                   Note.content = state.content st, Note.tags = state.tags st,
                   createdAt = createdAt (notes st ! i), updatedAt = now \<rparr>
          else notes (saveNote ms now st) ! i = notes st ! i)"
  using assms by (simp add: saveNote_update)

theorem update_replaces_bound_note_witness:
  "\<not> blank retitled_draft \<and> currentNote retitled_draft = Some groceries \<and>
   notes retitled_draft = [groceries, report] \<and>
   notes (saveNote 1704153600000 ''2024-01-02T00:00:00.000Z'' retitled_draft) ! 0 =
     \<lparr> id' = ''1704067200000'', Note.title = ''  Shopping  '', Note.content = ''Milk, eggs'',
       Note.tags = [''home''], createdAt = ''2024-01-01T00:00:00.000Z'',
       updatedAt = ''2024-01-02T00:00:00.000Z'' \<rparr> \<and>
   notes (saveNote 1704153600000 ''2024-01-02T00:00:00.000Z'' retitled_draft) ! 1 = report"
proof -
  have c: "currentNote retitled_draft = Some groceries"
    by (simp add: retitled_draft_def setTitle_def editNote_def)
  have n: "notes retitled_draft = [groceries, report]"
    by (simp add: retitled_draft_def setTitle_def editNote_def two_notes_def)
  have d: "state.title retitled_draft = ''  Shopping  '' \<and>
      state.content retitled_draft = ''Milk, eggs'' \<and> state.tags retitled_draft = [''home'']"
    by (simp add: retitled_draft_def setTitle_def editNote_def groceries_def)
  have i: "id' groceries \<noteq> id' report" by (simp add: groceries_def report_def)
  have l0: "0 < length (notes retitled_draft)" and l1: "1 < length (notes retitled_draft)"
    using n by simp_all
  from update_replaces_bound_note [OF retitled_not_blank c l0, of 1704153600000 "''2024-01-02T00:00:00.000Z''"]
    update_replaces_bound_note [OF retitled_not_blank c l1, of 1704153600000 "''2024-01-02T00:00:00.000Z''"]
    retitled_not_blank c n d i
  show ?thesis by (simp add: groceries_def)
qed

text \<open>Claim C5 as stated has no condition on the draft; with title and content erased,
  Save leaves the bound note as it was.\<close>

theorem update_blank_counterexample:
  "\<not> (notes (saveNote 1704153600000 ''2024-01-02T00:00:00.000Z'' erased_draft) ! 0 =
        (notes erased_draft ! 0)\<lparr> Note.title := state.title erased_draft,
           Note.content := state.content erased_draft,
           Note.tags := state.tags erased_draft,
           updatedAt := ''2024-01-02T00:00:00.000Z'' \<rparr>)"
  by (simp add: saveNote_def erased_draft_def setContent_def setTitle_def editNote_def
      two_notes_def initial_def trim_def groceries_def)

text \<open>
  Claim C6, as amended. Save on a draft that is bound to no note: when the draft is
  blank, nothing changes; otherwise a new note is put in front of the collection, the
  old notes following unchanged, with the draft's title, content and tags, with
  \<open>createdAt = updatedAt = now\<close>, and with the decimal digits of the millisecond clock
  as its identifier. The identifiers stay pairwise different when they were so before
  and no note carries those digits yet.
\<close>

theorem create_rejects_blank_else_prepends:
  assumes "currentNote st = None"
  shows "(blank st \<longrightarrow> saveNote ms now st = st) \<and>
         (\<not> blank st \<longrightarrow>
            notes (saveNote ms now st) =
              \<lparr> id' = toString ms, Note.title = state.title st,
                Note.content = state.content st, Note.tags = state.tags st,
                createdAt = now, updatedAt = now \<rparr> # notes st \<and>
            (distinct (map id' (notes st)) \<and> toString ms \<notin> set (map id' (notes st))
               \<longrightarrow> distinct (map id' (notes (saveNote ms now st)))))"
  using assms by (auto simp: saveNote_create saveNote_blank_draft)

theorem create_rejects_blank_else_prepends_witness:
  "currentNote blank_draft = None \<and> blank blank_draft \<and>
   saveNote 1704240000000 ''2024-01-03T00:00:00.000Z'' blank_draft = blank_draft \<and>
   currentNote new_draft = None \<and> \<not> blank new_draft \<and>
   notes (saveNote 1704240000000 ''2024-01-03T00:00:00.000Z'' new_draft) =
     [\<lparr> id' = ''1704240000000'', Note.title = ''  x  '', Note.content = [], Note.tags = [],
        createdAt = ''2024-01-03T00:00:00.000Z'', updatedAt = ''2024-01-03T00:00:00.000Z'' \<rparr>,
      groceries, report] \<and>
   distinct (map id' (notes (saveNote 1704240000000 ''2024-01-03T00:00:00.000Z'' new_draft)))"
proof -
  have b: "currentNote blank_draft = None"
    by (simp add: blank_draft_def setContent_def createNote_def)
  have bb: "blank blank_draft"
    by (simp add: blank_def blank_draft_def setContent_def createNote_def trim_def is_white_def)
  have c: "currentNote new_draft = None"
    by (simp add: new_draft_def setTitle_def createNote_def)
  have d: "state.title new_draft = ''  x  '' \<and> state.content new_draft = [] \<and>
           state.tags new_draft = [] \<and> notes new_draft = [groceries, report]"
    by (simp add: new_draft_def setTitle_def createNote_def two_notes_def)
  have f: "distinct (map id' (notes new_draft)) \<and>
           toString 1704240000000 \<notin> set (map id' (notes new_draft))"
    using d by (simp add: toString_sample2 groceries_def report_def)
  from create_rejects_blank_else_prepends [OF b, of 1704240000000 "''2024-01-03T00:00:00.000Z''"]
    create_rejects_blank_else_prepends [OF c, of 1704240000000 "''2024-01-03T00:00:00.000Z''"]
    b bb c d f new_draft_not_blank
  show ?thesis by (simp add: toString_sample2)
qed

text \<open>Claim C6 as stated calls the identifier fresh; when the clock reads what it
  read for the groceries note, the new note gets that note's identifier.\<close>

theorem create_identifier_counterexample:
  "\<not> (id' (hd (notes (saveNote 1704067200000 ''2024-01-03T00:00:00.000Z'' new_draft)))
        \<notin> set (map id' (notes new_draft)))"
proof -
  have d: "notes new_draft = [groceries, report]"
    by (simp add: new_draft_def setTitle_def createNote_def two_notes_def)
  have c: "currentNote new_draft = None"
    by (simp add: new_draft_def setTitle_def createNote_def)
  show ?thesis
    using new_draft_not_blank c d
    by (simp add: saveNote_create toString_sample groceries_def)
qed

text \<open>
  Claim C10. A save that goes through (the draft is not blank) stores title and
  content as typed, white space at the ends included: in the new first note when the
  draft is bound to no note, in every note with the bound identifier otherwise.
\<close>

theorem saved_note_keeps_text_verbatim:
  assumes "\<not> blank st"
  shows "(currentNote st = None \<longrightarrow>
            (\<exists>n. notes (saveNote ms now st) = n # notes st \<and>
                 Note.title n = state.title st \<and> Note.content n = state.content st)) \<and>
         (\<forall>cur i. currentNote st = Some cur \<and> i < length (notes st) \<and>
                  id' (notes st ! i) = id' cur \<longrightarrow>
            Note.title (notes (saveNote ms now st) ! i) = state.title st \<and>
            Note.content (notes (saveNote ms now st) ! i) = state.content st)"
  using assms by (auto simp: saveNote_create saveNote_update)

theorem saved_note_keeps_text_verbatim_witness:
  "\<not> blank new_draft \<and> state.title new_draft = ''  x  '' \<and>
   Note.title (hd (notes (saveNote 1704240000000 ''2024-01-03T00:00:00.000Z'' new_draft)))
     = ''  x  '' \<and>
   \<not> blank retitled_draft \<and> state.title retitled_draft = ''  Shopping  '' \<and>
   Note.title (notes (saveNote 1704240000000 ''2024-01-03T00:00:00.000Z'' retitled_draft) ! 0)
     = ''  Shopping  ''"
proof -
  have c: "currentNote new_draft = None"
    by (simp add: new_draft_def setTitle_def createNote_def)
  have t: "state.title new_draft = ''  x  ''"
    by (simp add: new_draft_def setTitle_def createNote_def)
  have c2: "currentNote retitled_draft = Some groceries"
    by (simp add: retitled_draft_def setTitle_def editNote_def)
  have t2: "state.title retitled_draft = ''  Shopping  ''"
    by (simp add: retitled_draft_def setTitle_def editNote_def)
  have n2: "notes retitled_draft = [groceries, report]"
    by (simp add: retitled_draft_def setTitle_def editNote_def two_notes_def)
  from saved_note_keeps_text_verbatim [OF new_draft_not_blank, of 1704240000000 "''2024-01-03T00:00:00.000Z''"]
    c t obtain n where
    "notes (saveNote 1704240000000 ''2024-01-03T00:00:00.000Z'' new_draft) = n # notes new_draft"
    "Note.title n = ''  x  ''" by auto
  then have h: "Note.title (hd (notes (saveNote 1704240000000 ''2024-01-03T00:00:00.000Z'' new_draft))) = ''  x  ''"
    by simp
  from saved_note_keeps_text_verbatim [OF retitled_not_blank, of 1704240000000 "''2024-01-03T00:00:00.000Z''"]
    c2 n2 have "Note.title (notes (saveNote 1704240000000 ''2024-01-03T00:00:00.000Z'' retitled_draft) ! 0)
     = state.title retitled_draft" by simp
  with h t t2 new_draft_not_blank retitled_not_blank show ?thesis by simp
qed


section \<open>Deleting a note\<close>

text \<open>
  Claim C8. With the confirmation accepted, \<open>deleteNote\<close> keeps exactly the notes
  with another identifier, in their order; no note with the identifier is left; when
  none had it the state is unchanged; deleting twice equals deleting once. A declined
  confirmation changes nothing. The function is total: no call raises.
\<close>

theorem delete_removes_and_is_idempotent:
  "notes (deleteNote True i st) = filter (\<lambda>n. id' n \<noteq> i) (notes st) \<and>
   i \<notin> set (map id' (notes (deleteNote True i st))) \<and>
   (i \<notin> set (map id' (notes st)) \<longrightarrow> deleteNote True i st = st) \<and>
   deleteNote True i (deleteNote True i st) = deleteNote True i st \<and>
   deleteNote False i st = st"
proof -
  have "filter (\<lambda>n. id' n \<noteq> i) (notes st) = notes st" if "i \<notin> set (map id' (notes st))"
    using that by (induction "notes st") (auto simp: filter_id_conv)
  then show ?thesis by (auto simp: deleteNote_def)
qed

theorem delete_removes_and_is_idempotent_witness:
  "notes (deleteNote True ''1704067200000'' two_notes) = [report] \<and>
   deleteNote True ''1704067200000'' (deleteNote True ''1704067200000'' two_notes)
     = deleteNote True ''1704067200000'' two_notes \<and>
   ''1704240000000'' \<notin> set (map id' (notes two_notes)) \<and>
   deleteNote True ''1704240000000'' two_notes = two_notes"
proof -
  have n: "notes two_notes = [groceries, report]" by (simp add: two_notes_def)
  have a: "''1704240000000'' \<notin> set (map id' (notes two_notes))"
    using n by (simp add: groceries_def report_def)
  from delete_removes_and_is_idempotent [of "''1704067200000''" two_notes]
    delete_removes_and_is_idempotent [of "''1704240000000''" two_notes] n a
  show ?thesis by (simp add: groceries_def report_def)
qed


section \<open>The tags of a draft\<close>

lemma lower_char_idem: "lower_char (lower_char c) = lower_char c"
proof -
  have "of_char (char_of (of_char c + 32 :: nat)) = (of_char c + 32 :: nat)"
    if "(of_char c :: nat) \<le> 222" using that by (simp add: of_char_of)
  then show ?thesis by (auto simp: lower_char_def Let_def)
qed

lemma is_white_lower_char: "is_white (lower_char c) = is_white c"
proof -
  have "of_char (char_of (of_char c + 32 :: nat)) = (of_char c + 32 :: nat)"
    if "(of_char c :: nat) \<le> 222" using that by (simp add: of_char_of)
  then show ?thesis by (auto simp: lower_char_def is_white_def Let_def)
qed

lemma toLowerCase_idem: "toLowerCase (toLowerCase s) = toLowerCase s"
  by (simp add: toLowerCase_def lower_char_idem)

lemma dropWhile_white_lower:
  "dropWhile is_white (map lower_char s) = map lower_char (dropWhile is_white s)"
  by (induction s) (auto simp: is_white_lower_char)

lemma trim_toLowerCase: "trim (toLowerCase s) = toLowerCase (trim s)"
  by (simp add: trim_def toLowerCase_def dropWhile_white_lower rev_map)

lemma dropWhile_last:
  "xs \<noteq> [] \<Longrightarrow> \<not> P (last xs) \<Longrightarrow> dropWhile P xs \<noteq> [] \<and> last (dropWhile P xs) = last xs"
  by (induction xs) auto

lemma dropWhile_fixed: "xs = [] \<or> \<not> P (hd xs) \<Longrightarrow> dropWhile P xs = xs"
  by (cases xs) auto

lemma trim_idem: "trim (trim s) = trim s"
proof -
  let ?d = "dropWhile is_white s"
  let ?e = "dropWhile is_white (rev ?d)"
  have front: "dropWhile is_white (rev ?e) = rev ?e"
  proof (cases "?d = []")
    case True
    have "?e = []" unfolding True by simp
    then show ?thesis by (simp only: rev.simps dropWhile.simps)
  next
    case False
    then have nw: "\<not> is_white (hd ?d)" by (rule hd_dropWhile)
    from False have "rev ?d \<noteq> []" by simp
    moreover have "\<not> is_white (last (rev ?d))" using False nw by (simp add: last_rev)
    ultimately have "?e \<noteq> [] \<and> last ?e = last (rev ?d)" by (rule dropWhile_last)
    then have "rev ?e \<noteq> []" and "hd (rev ?e) = hd ?d" using False by (simp_all add: hd_rev last_rev)
    with nw show ?thesis by (simp add: dropWhile_fixed)
  qed
  have "trim (trim s) = rev (dropWhile is_white (rev (dropWhile is_white (rev ?e))))"
    by (simp add: trim_def)
  also have "\<dots> = rev (dropWhile is_white ?e)" by (simp add: front)
  also have "\<dots> = rev ?e" by simp
  finally show ?thesis by (simp add: trim_def)
qed

lemma normalize_idem: "normalize (normalize t) = normalize t"
  by (simp add: normalize_def trim_toLowerCase trim_idem toLowerCase_idem)

lemma tidy_addTag: "tidy (state.tags st) \<Longrightarrow> tidy (state.tags (addTag st))"
  by (auto simp: addTag_def Let_def tidy_def normalize_idem normalize_def[symmetric])

lemma tidy_event: "tidy (state.tags st) \<Longrightarrow> tidy (state.tags (apply_event e st))"
proof (cases e)
  case (TypeTag s)
  assume "tidy (state.tags st)"
  with TypeTag show ?thesis by (simp add: setTagInput_def)
next
  case AddTag
  assume "tidy (state.tags st)"
  with AddTag show ?thesis by (simp add: tidy_addTag)
next
  case (RemoveTag t)
  assume "tidy (state.tags st)"
  with RemoveTag show ?thesis by (simp add: removeTag_def tidy_def)
qed

lemma tidy_events: "tidy (state.tags st) \<Longrightarrow> tidy (state.tags (fold apply_event es st))"
  by (induction es arbitrary: st) (auto simp: tidy_event)

lemma tidy_distinct_normalized: "tidy ts \<Longrightarrow> distinct (map normalize ts)"
  by (simp add: tidy_def distinct_map inj_on_def)

text \<open>
  Claim C9. Whatever the user types, adds and removes in the editor opened on a new
  note, no two tags of the draft are equal after trimming and lower-casing. One call
  of \<open>addTag\<close> appends the trimmed, lower-cased input and empties the input when that
  value is not empty and not yet a tag of the draft; in every other case it changes
  nothing.
\<close>

theorem draft_tags_never_duplicate:
  "distinct (map normalize (state.tags (fold apply_event es (createNote st)))) \<and>
   (normalize (tagInput st) \<noteq> [] \<and> normalize (tagInput st) \<notin> set (state.tags st)
      \<longrightarrow> addTag st = st\<lparr> state.tags := state.tags st @ [normalize (tagInput st)],
                           tagInput := [] \<rparr>) \<and>
   (normalize (tagInput st) = [] \<or> normalize (tagInput st) \<in> set (state.tags st)
      \<longrightarrow> addTag st = st)"
proof -
  have "tidy (state.tags (createNote st))" by (simp add: createNote_def tidy_def)
  then have "tidy (state.tags (fold apply_event es (createNote st)))" by (rule tidy_events)
  then have "distinct (map normalize (state.tags (fold apply_event es (createNote st))))"
    by (rule tidy_distinct_normalized)
  then show ?thesis by (auto simp: addTag_def normalize_def Let_def)
qed

lemma normalize_samples:
  "normalize ''  Home '' = ''home''" "normalize ''HOME'' = ''home''"
  "normalize ''Work'' = ''work''" "normalize ''   '' = []" "normalize [] = []"
  by code_simp+

lemma tag_session_result:
  "state.tags (fold apply_event tag_session (createNote initial)) = [''home'', ''work'']"
  by (simp add: tag_session_def addTag_def setTagInput_def createNote_def initial_def Let_def
      normalize_def[symmetric] normalize_samples)

theorem draft_tags_never_duplicate_witness:
  "state.tags (fold apply_event tag_session (createNote initial)) = [''home'', ''work''] \<and>
   distinct (map normalize (state.tags (fold apply_event tag_session (createNote initial))))"
  using draft_tags_never_duplicate [of tag_session initial] tag_session_result by simp


section \<open>The example scenario of the specification\<close>

text \<open>
  Create the groceries note; a blank create changes nothing; the search for
  \<^verbatim>\<open>eggs\<close> shows the note and the one for \<^verbatim>\<open>xyz\<close> shows nothing; so do the tag
  selections \<^verbatim>\<open>home\<close> and \<^verbatim>\<open>work\<close>; deleting empties the collection, and
  deleting again leaves it empty.
\<close>

lemma scenario_create: "notes first_note = [groceries] \<and> \<not> isEditing first_note"
  by (simp add: first_note_def saveNote_def addTag_def setTagInput_def setContent_def
      setTitle_def createNote_def initial_def groceries_def trim_def is_white_def
      toLowerCase_def lower_char_def toString_sample Let_def)

lemma scenario_blank:
  "notes (saveNote 1704067200001 ''2024-01-01T00:00:00.001Z''
            (setContent [] (setTitle [] (createNote first_note)))) = [groceries]"
  by (simp add: saveNote_def setContent_def setTitle_def createNote_def scenario_create trim_def)

lemma scenario_matches:
  "matchesSearch ''eggs'' groceries" "\<not> matchesSearch ''xyz'' groceries"
  "matchesTag (Some ''home'') groceries" "\<not> matchesTag (Some ''work'') groceries"
  "matchesSearch [] groceries" "matchesTag None groceries"
  by code_simp+

lemma scenario_search:
  "filteredNotes getTime (first_note\<lparr> searchQuery := ''eggs'' \<rparr>) = [groceries]"
  "filteredNotes getTime (first_note\<lparr> searchQuery := ''xyz'' \<rparr>) = []"
  "filteredNotes getTime (first_note\<lparr> selectedTag := Some ''home'' \<rparr>) = [groceries]"
  "filteredNotes getTime (first_note\<lparr> selectedTag := Some ''work'' \<rparr>) = []"
proof -
  have q: "searchQuery first_note = []" and t: "selectedTag first_note = None"
    by (simp_all add: first_note_def saveNote_def addTag_def setTagInput_def setContent_def
        setTitle_def createNote_def initial_def Let_def)
  show "filteredNotes getTime (first_note\<lparr> searchQuery := ''eggs'' \<rparr>) = [groceries]"
    "filteredNotes getTime (first_note\<lparr> searchQuery := ''xyz'' \<rparr>) = []"
    "filteredNotes getTime (first_note\<lparr> selectedTag := Some ''home'' \<rparr>) = [groceries]"
    "filteredNotes getTime (first_note\<lparr> selectedTag := Some ''work'' \<rparr>) = []"
    by (simp_all add: filteredNotes_def scenario_create scenario_matches q t)
qed

lemma scenario_delete:
  "notes (deleteNote True ''1704067200000'' first_note) = []"
  "notes (deleteNote True ''1704067200000'' (deleteNote True ''1704067200000'' first_note)) = []"
  by (simp_all add: deleteNote_def scenario_create groceries_def)


section \<open>Printing and parsing\<close>

lemma run_scalar:
  "begin_value t = Some (Done v) \<Longrightarrow> run Value fs (t # rest) = run (Done v) fs rest"
  by (simp add: step_def)

lemma begin_value_hd:
  "\<exists>t ts m. tokens_of v = t # ts \<and> begin_value t = Some m \<and> t \<noteq> TRBrack"
  by (cases v) auto

lemma run_ArrayStart:
  "run ArrayStart fs (tokens_of v @ rest) = run Value (InArray [] # fs) (tokens_of v @ rest)"
proof -
  obtain t ts m where "tokens_of v = t # ts" "begin_value t = Some m" "t \<noteq> TRBrack"
    using begin_value_hd by blast
  then show ?thesis by (simp add: step_def)
qed

lemma run_elements:
  assumes "\<And>x fs rest. x \<in> set (y # ys) \<Longrightarrow>
             run Value fs (tokens_of x @ rest) = run (Done x) fs rest"
  shows "run Value (InArray acc # fs) (separate TComma (map tokens_of (y # ys)) @ TRBrack # rest)
       = run (Done (JArray (rev acc @ y # ys))) fs rest"
  using assms
proof (induction ys arbitrary: y acc)
  case Nil
  then show ?case by (simp add: step_def)
next
  case (Cons z zs)
  have "run Value (InArray acc # fs)
          (separate TComma (map tokens_of (y # z # zs)) @ TRBrack # rest)
      = run Value (InArray acc # fs)
          (tokens_of y @ TComma # separate TComma (map tokens_of (z # zs)) @ TRBrack # rest)"
    by simp
  also have "\<dots> = run (Done y) (InArray acc # fs)
          (TComma # separate TComma (map tokens_of (z # zs)) @ TRBrack # rest)"
    using Cons.prems by simp
  also have "\<dots> = run Value (InArray (y # acc) # fs)
          (separate TComma (map tokens_of (z # zs)) @ TRBrack # rest)"
    by (simp add: step_def)
  also have "\<dots> = run (Done (JArray (rev (y # acc) @ z # zs))) fs rest"
    using Cons.prems by (intro Cons.IH) simp
  finally show ?case by simp
qed

lemma run_members:
  assumes "\<And>m fs rest. m \<in> set (y # ys) \<Longrightarrow>
             run Value fs (tokens_of (snd m) @ rest) = run (Done (snd m)) fs rest"
  shows "run (Key acc) fs (separate TComma (map member_tokens (y # ys)) @ TRBrace # rest)
       = run (Done (JObject (rev acc @ y # ys))) fs rest"
  using assms
proof (induction ys arbitrary: y acc)
  case Nil
  have "run (Key acc) fs (separate TComma (map member_tokens [y]) @ TRBrace # rest)
      = run Value (InObject acc (fst y) # fs) (tokens_of (snd y) @ TRBrace # rest)"
    by (simp add: step_def)
  also have "\<dots> = run (Done (snd y)) (InObject acc (fst y) # fs) (TRBrace # rest)"
    using Nil.prems by simp
  finally show ?case by (simp add: step_def)
next
  case (Cons z zs)
  have "run (Key acc) fs (separate TComma (map member_tokens (y # z # zs)) @ TRBrace # rest)
      = run Value (InObject acc (fst y) # fs)
          (tokens_of (snd y) @ TComma # separate TComma (map member_tokens (z # zs)) @ TRBrace # rest)"
    by (simp add: step_def)
  also have "\<dots> = run (Done (snd y)) (InObject acc (fst y) # fs)
          (TComma # separate TComma (map member_tokens (z # zs)) @ TRBrace # rest)"
    using Cons.prems by simp
  also have "\<dots> = run (Key (y # acc)) fs
          (separate TComma (map member_tokens (z # zs)) @ TRBrace # rest)"
    by (simp add: step_def)
  also have "\<dots> = run (Done (JObject (rev (y # acc) @ z # zs))) fs rest"
    using Cons.prems by (intro Cons.IH) simp
  finally show ?case by simp
qed

lemma run_ObjectStart:
  "run ObjectStart fs (member_tokens m @ rest) = run (Key []) fs (member_tokens m @ rest)"
  by (simp add: step_def)

lemma run_tokens_of: "run Value fs (tokens_of v @ rest) = run (Done v) fs rest"
proof (induction v arbitrary: fs rest)
  case (JArray vs)
  show ?case
  proof (cases vs)
    case Nil
    then show ?thesis by (simp add: step_def)
  next
    case (Cons y ys)
    have "run Value fs (tokens_of (JArray vs) @ rest)
        = run ArrayStart fs (separate TComma (map tokens_of (y # ys)) @ TRBrack # rest)"
      using Cons by (simp add: step_def)
    also have "\<dots> = run Value (InArray [] # fs)
          (separate TComma (map tokens_of (y # ys)) @ TRBrack # rest)"
    proof (cases ys)
      case Nil
      then show ?thesis using run_ArrayStart [of fs y "TRBrack # rest"] by simp
    next
      case (Cons z zs)
      then show ?thesis
        using run_ArrayStart [of fs y "TComma # separate TComma (map tokens_of (z # zs)) @ TRBrack # rest"]
        by simp
    qed
    also have "\<dots> = run (Done (JArray (rev [] @ y # ys))) fs rest"
      using JArray Cons by (intro run_elements) simp
    finally show ?thesis using Cons by simp
  qed
next
  case (JObject ms)
  show ?case
  proof (cases ms)
    case Nil
    then show ?thesis by (simp add: step_def)
  next
    case (Cons y ys)
    have ih: "run Value fs' (tokens_of (snd m) @ rest') = run (Done (snd m)) fs' rest'"
      if "m \<in> set (y # ys)" for m fs' rest'
    proof -
      obtain k v where m: "m = (k, v)" by (cases m)
      have "v \<in> Basic_BNFs.snds m" by (simp add: m)
      moreover have "m \<in> set ms" using that Cons by simp
      ultimately have "run Value fs' (tokens_of v @ rest') = run (Done v) fs' rest'"
        by (rule JObject [rotated])
      then show ?thesis by (simp add: m)
    qed
    have "run Value fs (tokens_of (JObject ms) @ rest)
        = run ObjectStart fs (separate TComma (map member_tokens (y # ys)) @ TRBrace # rest)"
      using Cons by (simp add: step_def)
    also have "\<dots> = run (Key []) fs
          (separate TComma (map member_tokens (y # ys)) @ TRBrace # rest)"
      by (cases ys) (simp_all add: step_def)
    also have "\<dots> = run (Done (JObject (rev [] @ y # ys))) fs rest"
      using ih by (intro run_members) simp
    finally show ?thesis using Cons by simp
  qed
qed (simp_all add: step_def)

lemma run_tokens_of_all: "run Value [] (tokens_of v) = Some v"
  using run_tokens_of [of "[]" v "[]"] by simp

lemma hexval_hexdigit: "k < 16 \<Longrightarrow> hexval (hexdigit k) = Some k"
proof -
  assume "k < 16"
  then have "k = 0 \<or> k = 1 \<or> k = 2 \<or> k = 3 \<or> k = 4 \<or> k = 5 \<or> k = 6 \<or> k = 7 \<or>
      k = 8 \<or> k = 9 \<or> k = 10 \<or> k = 11 \<or> k = 12 \<or> k = 13 \<or> k = 14 \<or> k = 15"
    by arith
  then show ?thesis by (elim disjE) (simp_all add: hexval_def hexdigit_def)
qed

lemma hex4_control:
  "n < 32 \<Longrightarrow> hex4 (CHR ''0'') (CHR ''0'') (hexdigit (n div 16)) (hexdigit (n mod 16)) = Some n"
proof -
  assume n: "n < 32"
  then have "n div 16 < 16" by simp
  then have a: "hexval (hexdigit (n div 16)) = Some (n div 16)" by (rule hexval_hexdigit)
  have b: "hexval (hexdigit (n mod 16)) = Some (n mod 16)" by (rule hexval_hexdigit) simp
  have z: "hexval (CHR ''0'') = Some 0" by (simp add: hexval_def)
  show ?thesis by (simp add: hex4_def a b z)
qed

lemma lex_string_unit:
  assumes "u < 256"
  shows "lex_string (quote_unit u @ cs) = cons_opt u (lex_string cs)"
proof -
  consider "u = 34" | "u = 92" | "u = 8" | "u = 12" | "u = 10" | "u = 13" | "u = 9"
    | "u < 32" "u \<notin> {8, 9, 10, 12, 13}" | "32 \<le> u" "u \<noteq> 34" "u \<noteq> 92" by fastforce
  then show ?thesis
  proof cases
    case 8
    then show ?thesis by (simp add: quote_unit_def hex4_control)
  next
    case 9
    with assms show ?thesis by (simp add: quote_unit_def of_char_of)
  qed (simp_all add: quote_unit_def unescape_def)
qed

lemma lex_string_quote:
  "list_all (\<lambda>u. u < 256) us \<Longrightarrow>
     lex_string (concat (map quote_unit us) @ CHR 0x22 # rest) = Some (us, rest)"
  by (induction us) (simp_all add: lex_string_unit cons_opt_def)

lemma lex_print_token:
  assumes "printable t"
  shows "lex (print_token t @ rest) = cons_tok t (lex rest)"
proof (cases t)
  case (TStr us)
  with assms show ?thesis
    by (simp add: quote_def is_json_white_def lex_token_def punctuation_def lex_string_quote)
next
  case (TNum l)
  with assms show ?thesis by simp
qed (simp_all add: is_json_white_def lex_token_def punctuation_def is_digit_def literal_def)

lemma lex_print_tokens:
  "list_all printable ts \<Longrightarrow> lex (concat (map print_token ts)) = Some ts"
  by (induction ts) (simp_all add: lex_print_token cons_tok_def)

lemma JSON_parse_print:
  assumes "list_all printable (tokens_of v)"
  shows "JSON_parse (print_json v) = Some v"
  using assms by (simp add: JSON_parse_def print_json_def lex_print_tokens run_tokens_of_all)

lemma units_small: "list_all (\<lambda>u. u < 256) (units s)"
  by (simp add: units_def list_all_iff)

lemma string_of_units_units: "string_of_units (units s) = Some s"
  by (induction s) (simp_all add: units_def)

lemma string_of_json_string: "string_of_json (json_of_string s) = Some s"
  by (simp add: string_of_json_def json_of_string_def string_of_units_units)

lemma all_some_map: "(\<And>x. f (g x) = Some x) \<Longrightarrow> all_some (map (f \<circ> g) xs) = Some xs"
  by (induction xs) simp_all

lemma strings_of_json_strings: "strings_of_json (JArray (map json_of_string ts)) = Some ts"
  by (simp add: strings_of_json_def all_some_map string_of_json_string)

lemma note_of_json_note: "note_of_json (json_of_note n) = Some n"
  by (simp add: note_of_json_def json_of_note_def property_def units_def
      string_of_json_string strings_of_json_strings)

lemma notes_of_json_notes: "notes_of_json (JArray (map json_of_note ns)) = Some ns"
  by (simp add: notes_of_json_def all_some_map note_of_json_note)

lemma printable_separate:
  "(\<And>x. list_all printable (f x)) \<Longrightarrow> list_all printable (separate TComma (map f xs))"
  by (induction xs rule: induct_list012) simp_all

lemma printable_string: "list_all printable (tokens_of (json_of_string s))"
  by (simp add: json_of_string_def units_small)

lemma printable_strings: "list_all printable (tokens_of (JArray (map json_of_string ts)))"
  by (simp add: printable_separate printable_string)

lemma printable_note: "list_all printable (tokens_of (json_of_note n))"
  using printable_strings [of "Note.tags n"]
  by (simp add: json_of_note_def printable_string units_small)

lemma printable_notes: "list_all printable (tokens_of (JArray (map json_of_note ns)))"
  by (simp add: printable_separate printable_note)

lemma JSON_parse_stringify:
  "JSON_parse (JSON_stringify ns) = Some (JArray (map json_of_note ns))"
  unfolding JSON_stringify_def by (rule JSON_parse_print) (rule printable_notes)

lemma JSON_stringify_not_empty: "JSON_stringify ns \<noteq> []"
  by (simp add: JSON_stringify_def print_json_def)

text \<open>The printer and the parser on sample texts: the blob of a one-note collection,
  a title with characters that need an escape, and a text with white space, a
  \<^verbatim>\<open>\u\<close> escape and a number, which the printer never writes.\<close>

lemma stringify_groceries:
  "JSON_stringify [groceries] =
     ''[{\"id\":\"1704067200000\",\"title\":\"Groceries\",\"content\":\"Milk, eggs\",\"tags\":[\"home\"],\"createdAt\":\"2024-01-01T00:00:00.000Z\",\"updatedAt\":\"2024-01-01T00:00:00.000Z\"}]''"
  by code_simp

lemma stringify_escapes:
  "JSON_stringify [groceries\<lparr> Note.title := [CHR 0x22, CHR 0x5C, CHR 0x0A, CHR 0x01, CHR 0xE9] \<rparr>] =
     ''[{\"id\":\"1704067200000\",\"title\":\"'' @
       [CHR 0x5C, CHR 0x22, CHR 0x5C, CHR 0x5C, CHR 0x5C, CHR ''n'', CHR 0x5C, CHR ''u'', CHR ''0'', CHR ''0'', CHR ''0'', CHR ''1'', CHR 0xE9] @
     ''\",\"content\":\"Milk, eggs\",\"tags\":[\"home\"],\"createdAt\":\"2024-01-01T00:00:00.000Z\",\"updatedAt\":\"2024-01-01T00:00:00.000Z\"}]''"
  by code_simp

lemma parse_spaced:
  "JSON_parse ('' [ { \"id\" : \"'' @ [CHR 0x5C] @ ''u0041'' @ [CHR 0x5C] @ ''n\" } , -1.5e3 , null ] '')
     = Some (JArray [JObject [(units ''id'', JString [65, 10])], JNumber ''-1.5e3'', JNull])"
  by code_simp

lemma parse_truncated: "JSON_parse ''[{\"id\":\"1704067200000\",\"title\":\"Gro'' = None"
  by code_simp


section \<open>Storing and loading\<close>

text \<open>
  Claim C7. Whatever the collection, writing it to the store and loading from that
  store gives the same collection back: the same notes in the same order, equal in all
  six fields.
\<close>

theorem persist_then_load:
  "load (persist st ls) st0 = Inr (st0\<lparr> notes := notes st \<rparr>)"
  by (simp add: load_def persist_def JSON_stringify_not_empty JSON_parse_stringify
      notes_of_json_notes)

theorem persist_then_load_witness:
  "load (persist two_notes Map.empty) initial = Inr two_notes"
  using persist_then_load [of two_notes Map.empty initial] by (simp add: two_notes_def)

text \<open>
  Claim C2, as amended. Loading from a store without the key gives the empty
  collection; loading what \<open>persist\<close> wrote gives the written collection; loading a
  non-empty blob that is not JSON gives no collection at all: the
  \<^verbatim>\<open>SyntaxError\<close> of \<^verbatim>\<open>JSON.parse\<close> leaves the effect uncaught.
\<close>

theorem load_absent_written_or_broken:
  "(ls ''notes'' = None \<longrightarrow> load ls initial = Inr initial \<and> notes initial = []) \<and>
   load (persist st ls) initial = Inr (initial\<lparr> notes := notes st \<rparr>) \<and>
   (\<forall>s. s \<noteq> [] \<and> JSON_parse s = None \<longrightarrow> load (ls(''notes'' \<mapsto> s)) initial = Inl SyntaxError)"
  by (simp add: load_def persist_def JSON_stringify_not_empty JSON_parse_stringify
      notes_of_json_notes initial_def)

theorem load_absent_written_or_broken_witness:
  "load Map.empty initial = Inr initial \<and> notes initial = [] \<and>
   load (persist two_notes Map.empty) initial = Inr two_notes \<and>
   JSON_parse ''[{\"id\":\"1704067200000\",\"title\":\"Gro'' = None \<and>
   load truncated_blob initial = Inl SyntaxError"
proof -
  from load_absent_written_or_broken [of Map.empty two_notes] parse_truncated
  show ?thesis by (simp add: two_notes_def truncated_blob_def)
qed

text \<open>Claim C2 as stated expects the empty collection for a blob that does not
  parse; for the blob that was cut off, loading ends in the error.\<close>

theorem load_truncated_counterexample:
  "load truncated_blob initial = Inl SyntaxError \<and> load truncated_blob initial \<noteq> Inr initial"
  by (simp add: load_def truncated_blob_def parse_truncated)

text \<open>What \<open>load\<close> takes in unchecked: the collection with the undated note, and a
  blob whose properties stand in another order than the component writes them.\<close>

lemma load_undated:
  "load (Map.empty(''notes'' \<mapsto> JSON_stringify [groceries, memo, report])) initial
     = Inr undated_notes"
  using notes_of_json_notes [of "[groceries, memo, report]"]
  by (simp add: load_def JSON_stringify_not_empty JSON_parse_stringify undated_notes_def)

lemma load_permuted:
  "load (Map.empty(''notes'' \<mapsto>
      ''[{\"updatedAt\":\"bogus\",\"tags\":[],\"title\":\"Memo\",\"id\":\"1704110400000\",\"createdAt\":\"2024-01-01T12:00:00.000Z\",\"content\":\"Call back\"}]''))
     initial = Inr (initial\<lparr> notes := [memo] \<rparr>)"
  by code_simp

end
